theory Spec2Isabelle
  imports Complex_Main "HOL-Library.AList" "HOL-Library.Multiset"
begin

section \<open>Strings\<close>

text \<open>
  A shallow embedding of the data profiling and payload extraction code of the chat
  application: \<^verbatim>\<open>src/App.tsx\<close> (the current profiling pass, the validator and the
  response handler) and the earlier type inference pass kept in
  \<^verbatim>\<open>src/unnamed/part_007\<close>.

  ECMAScript strings are modelled as \<^typ>\<open>string\<close> over ASCII text. The white space
  that \<^verbatim>\<open>String.prototype.trim\<close> removes is, in that range, TAB, LF, VT, FF, CR and
  SPACE; the non-ASCII white space of ECMAScript is outside the model.
\<close>

definition NL :: char where
  "NL = CHR 0x0A"

definition DQ :: char where
  "DQ = CHR 0x22"

definition BT :: char where
  "BT = CHR 0x60"

definition isSpace :: "char \<Rightarrow> bool" where
  "isSpace c = (c = CHR 0x09 \<or> c = CHR 0x0A \<or> c = CHR 0x0B \<or> c = CHR 0x0C \<or> c = CHR 0x0D \<or> c = CHR 0x20)"

text \<open>\<^verbatim>\<open>s.trim()\<close>\<close>

definition trimStart :: "string \<Rightarrow> string" where
  "trimStart s = dropWhile isSpace s"

definition trimEnd :: "string \<Rightarrow> string" where
  "trimEnd s = rev (dropWhile isSpace (rev s))"

definition trim :: "string \<Rightarrow> string" where
  "trim s = trimEnd (trimStart s)"

text \<open>
  \<^verbatim>\<open>s.split(sep)\<close> for a separator of one character. The result is never empty:
  \<^verbatim>\<open>''.split(',')\<close> is \<^verbatim>\<open>['']\<close>.
\<close>

fun split :: "char \<Rightarrow> string \<Rightarrow> string list" where
  "split sep [] = [[]]"
| "split sep (c # cs) =
     (if c = sep then [] # split sep cs
      else (case split sep cs of
              [] \<Rightarrow> [[c]]
            | w # ws \<Rightarrow> (c # w) # ws))"

text \<open>\<^verbatim>\<open>s.toLowerCase()\<close> on ASCII letters.\<close>

definition toLowerChar :: "char \<Rightarrow> char" where
  "toLowerChar c =
     (case map_of (zip ''ABCDEFGHIJKLMNOPQRSTUVWXYZ'' ''abcdefghijklmnopqrstuvwxyz'') c of
        None \<Rightarrow> c
      | Some l \<Rightarrow> l)"

definition toLowerCase :: "string \<Rightarrow> string" where
  "toLowerCase s = map toLowerChar s"

text \<open>Decimal rendering of a non-negative integer inside a template literal.\<close>

definition digitChar :: "nat \<Rightarrow> char" where
  "digitChar d = ''0123456789'' ! d"

fun showNat :: "nat \<Rightarrow> string" where
  "showNat n = (if n < 10 then [digitChar n] else showNat (n div 10) @ [digitChar (n mod 10)])"

section \<open>Cell parser (\<^verbatim>\<open>App.tsx\<close>, lines 63 to 67)\<close>

text \<open>
  \<^verbatim>\<open>h.trim().replace(/"/g, '')\<close>: the global flag makes \<^verbatim>\<open>replace\<close> delete every
  double quote of the trimmed text.
\<close>

definition removeQuotes :: "string \<Rightarrow> string" where
  "removeQuotes s = filter (\<lambda>c. c \<noteq> DQ) s"

definition cleanCell :: "string \<Rightarrow> string" where
  "cleanCell h = removeQuotes (trim h)"

definition parseLine :: "string \<Rightarrow> string list" where
  "parseLine line = map cleanCell (split (CHR '','') line)"

definition csvLines :: "string \<Rightarrow> string list" where
  "csvLines csvText = split NL (trim csvText)"

text \<open>
  The reading of section 4.1 of the specification, for comparison with \<^const>\<open>cleanCell\<close>:
  trim, then strip one leading and one trailing double quote when both are present.
\<close>

definition spec_unquote :: "string \<Rightarrow> string" where
  "spec_unquote h =
     (let t = trim h in
      if 2 \<le> length t \<and> hd t = DQ \<and> last t = DQ then butlast (tl t) else t)"

section \<open>Numbers\<close>

text \<open>
  The numbers of the language are IEEE doubles, with \<^verbatim>\<open>NaN\<close> and the infinities, and
  their arithmetic is built in, not code of the repository. The model takes the type
  \<open>'n\<close> of numbers and the operations the code applies to them as a parameter \<open>num\<close>:
  \<^verbatim>\<open>Number(v)\<close>, \<^verbatim>\<open>isNaN(x)\<close>, a non-negative integer (a literal or an array length) as a
  number, \<^verbatim>\<open>a + b\<close>, \<^verbatim>\<open>a - b\<close>, \<^verbatim>\<open>a / b\<close>, \<^verbatim>\<open>Math.pow(x, 2)\<close>, \<^verbatim>\<open>Math.sqrt(x)\<close>,
  \<^verbatim>\<open>parseFloat(x.toFixed(2))\<close>, and the test \<^verbatim>\<open>x < 0\<close> by which \<^verbatim>\<open>sort\<close> reads the result
  of its comparator. Every definition and theorem below holds for any such operations,
  those of the doubles among them.
\<close>

record 'n NumberOps =
  toNumber :: "string \<Rightarrow> 'n"
  isNaN :: "'n \<Rightarrow> bool"
  numOfNat :: "nat \<Rightarrow> 'n"
  numAdd :: "'n \<Rightarrow> 'n \<Rightarrow> 'n"
  numSub :: "'n \<Rightarrow> 'n \<Rightarrow> 'n"
  numDiv :: "'n \<Rightarrow> 'n \<Rightarrow> 'n"
  numSquare :: "'n \<Rightarrow> 'n"
  numSqrt :: "'n \<Rightarrow> 'n"
  numToFixed2 :: "'n \<Rightarrow> 'n"
  numNegative :: "'n \<Rightarrow> bool"

text \<open>\<^verbatim>\<open>const isNumeric = (v) => v.trim() !== '' && !isNaN(Number(v))\<close>\<close>

definition isNumeric :: "'n NumberOps \<Rightarrow> string \<Rightarrow> bool" where
  "isNumeric num v = (trim v \<noteq> [] \<and> \<not> isNaN num (toNumber num v))"

text \<open>
  An instance of the parameter, for concrete evaluations and for reading the formulas
  of the statistics: exact arithmetic on the reals, with \<open>None\<close> for \<^verbatim>\<open>NaN\<close> and for every
  result that is not a real (there are no infinities). It is not the arithmetic of the
  doubles, which rounds. Its \<open>toNumber\<close> agrees with \<^verbatim>\<open>Number\<close> on strings of ASCII
  digits with white space around them (the empty string is 0) and answers \<^verbatim>\<open>NaN\<close> on
  every other string.
\<close>

definition isDigit :: "char \<Rightarrow> bool" where
  "isDigit c = (c \<in> set ''0123456789'')"

definition digitValue :: "char \<Rightarrow> nat" where
  "digitValue c = length (takeWhile (\<lambda>d. d \<noteq> c) ''0123456789'')"

definition digitsNumber :: "string \<Rightarrow> real option" where
  "digitsNumber v =
     (let t = trim v in
      if list_all isDigit t
      then Some (real (foldl (\<lambda>a c. 10 * a + digitValue c) 0 t))
      else None)"

text \<open>
  \<^verbatim>\<open>parseFloat(x.toFixed(2))\<close> on a real: \<^verbatim>\<open>toFixed\<close> takes the integer \<open>n\<close> with
  \<open>n / 100\<close> nearest to the magnitude of \<open>x\<close> (the larger one on a tie) and keeps the
  sign; from \<open>10\<^sup>2\<^sup>1\<close> on it prints the number itself.
\<close>

definition roundFixed2 :: "real \<Rightarrow> real" where
  "roundFixed2 x =
     (if 10 ^ 21 \<le> \<bar>x\<bar> then x
      else sgn x * (of_int \<lfloor>\<bar>x\<bar> * 100 + 1 / 2\<rfloor> / 100))"

definition exactBinary :: "(real \<Rightarrow> real \<Rightarrow> real) \<Rightarrow> real option \<Rightarrow> real option \<Rightarrow> real option" where
  "exactBinary f a b = (case a of None \<Rightarrow> None | Some x \<Rightarrow> (case b of None \<Rightarrow> None | Some y \<Rightarrow> Some (f x y)))"

definition exactDiv :: "real option \<Rightarrow> real option \<Rightarrow> real option" where
  "exactDiv a b = (if b = Some 0 then None else exactBinary (\<lambda>x y. x / y) a b)"

definition exactSqrt :: "real option \<Rightarrow> real option" where
  "exactSqrt a = (case a of None \<Rightarrow> None | Some x \<Rightarrow> (if x < 0 then None else Some (sqrt x)))"

text \<open>
  The square root of a real is not computable; the equation of \<open>exactSqrt\<close> is kept
  out of the code equations, so that evaluations that do not reach it can run.
\<close>

declare exactSqrt_def [code del]

definition exactNegative :: "real option \<Rightarrow> bool" where
  "exactNegative a = (case a of None \<Rightarrow> False | Some x \<Rightarrow> x < 0)"

definition exactOps :: "(real option) NumberOps" where
  "exactOps =
     \<lparr>toNumber = digitsNumber,
      isNaN = (\<lambda>a. a = None),
      numOfNat = (\<lambda>n. Some (real n)),
      numAdd = exactBinary (\<lambda>x y. x + y),
      numSub = exactBinary (\<lambda>x y. x - y),
      numDiv = exactDiv,
      numSquare = map_option (\<lambda>x. x ^ 2),
      numSqrt = exactSqrt,
      numToFixed2 = map_option roundFixed2,
      numNegative = exactNegative\<rparr>"

section \<open>Statistics engine (\<^verbatim>\<open>App.tsx\<close>, lines 24 to 52)\<close>

record 'n NumericStats =
  mean :: 'n
  median :: 'n
  stdDev :: 'n
  minv :: 'n
  maxv :: 'n

text \<open>
  \<^verbatim>\<open>valueCounts\<close> is an object used as a dictionary; it is modelled as an association
  list in the order of first insertion, and \<^verbatim>\<open>Object.keys(valueCounts).length\<close> as its
  length. Keys inherited from \<^verbatim>\<open>Object.prototype\<close> are not modelled.
\<close>

record CategoricalStats =
  valueCounts :: "(string \<times> nat) list"
  uniqueValues :: nat

datatype 'n Stats = Numeric "'n NumericStats" | Categorical CategoricalStats

text \<open>
  \<^verbatim>\<open>[...data].sort((a, b) => a - b)\<close>. The comparator puts \<open>a\<close> before \<open>b\<close> when
  \<open>a - b\<close> is negative; a result that is zero or \<^verbatim>\<open>NaN\<close> leaves the two in their order.
  The sort of the language is stable, and with a consistent comparator its result is the
  one of the stable insertion sort below. With an inconsistent comparator (it is one
  only where \<^verbatim>\<open>NaN\<close> is among the data, which \<open>isNumeric\<close> excludes) the language leaves
  the order to the implementation, and the model keeps the insertion sort.
\<close>

definition sortsBefore :: "'n NumberOps \<Rightarrow> 'n \<Rightarrow> 'n \<Rightarrow> bool" where
  "sortsBefore num a b = numNegative num (numSub num a b)"

fun insertBy :: "('a \<Rightarrow> 'a \<Rightarrow> bool) \<Rightarrow> 'a \<Rightarrow> 'a list \<Rightarrow> 'a list" where
  "insertBy lt x [] = [x]"
| "insertBy lt x (y # ys) = (if lt x y then x # y # ys else y # insertBy lt x ys)"

definition sortBy :: "('a \<Rightarrow> 'a \<Rightarrow> bool) \<Rightarrow> 'a list \<Rightarrow> 'a list" where
  "sortBy lt xs = foldl (\<lambda>acc x. insertBy lt x acc) [] xs"

text \<open>\<^verbatim>\<open>xs.reduce((a, b) => a + b)\<close> with no initial value, on a non-empty array.\<close>

definition reduceSum :: "'n NumberOps \<Rightarrow> 'n list \<Rightarrow> 'n" where
  "reduceSum num xs = foldl (numAdd num) (hd xs) (tl xs)"

definition getNumericStats :: "'n NumberOps \<Rightarrow> 'n list \<Rightarrow> 'n NumericStats" where
  "getNumericStats num data =
     (if length data = 0
      then \<lparr>mean = numOfNat num 0, median = numOfNat num 0, stdDev = numOfNat num 0,
            minv = numOfNat num 0, maxv = numOfNat num 0\<rparr>
      else
        let sorted = sortBy (sortsBefore num) data;
            sum = foldl (\<lambda>acc val. numAdd num acc val) (numOfNat num 0) data;
            mean = numDiv num sum (numOfNat num (length data));
            mid = length sorted div 2;
            median = (if length sorted mod 2 = 0
                      then numDiv num (numAdd num (sorted ! (mid - 1)) (sorted ! mid)) (numOfNat num 2)
                      else sorted ! mid);
            stdDev = numSqrt num
                       (numDiv num (reduceSum num (map (\<lambda>x. numSquare num (numSub num x mean)) data))
                                   (numOfNat num (length data)))
        in \<lparr>mean = numToFixed2 num mean,
            median = numToFixed2 num median,
            stdDev = numToFixed2 num stdDev,
            minv = sorted ! 0,
            maxv = sorted ! (length sorted - 1)\<rparr>)"

text \<open>
  The consistency of the comparator on a set of values: no two values sort before each
  other, and not sorting after is transitive. The doubles other than \<^verbatim>\<open>NaN\<close> have it.
\<close>

definition consistentOn :: "('a \<Rightarrow> 'a \<Rightarrow> bool) \<Rightarrow> 'a set \<Rightarrow> bool" where
  "consistentOn lt D =
     ((\<forall>a\<in>D. \<forall>b\<in>D. \<not> (lt a b \<and> lt b a)) \<and>
      (\<forall>a\<in>D. \<forall>b\<in>D. \<forall>c\<in>D. \<not> lt b a \<and> \<not> lt c b \<longrightarrow> \<not> lt c a))"

definition getCategoricalStats :: "string list \<Rightarrow> CategoricalStats" where
  "getCategoricalStats data =
     (let valueCounts =
            foldl (\<lambda>acc val.
                     AList.update val ((case map_of acc val of None \<Rightarrow> 0 | Some n \<Rightarrow> n) + 1) acc)
                  [] data
      in \<lparr>valueCounts = valueCounts, uniqueValues = length valueCounts\<rparr>)"

section \<open>Profile aggregator (\<^verbatim>\<open>App.tsx\<close>, lines 62 to 100)\<close>

record 'n ColumnInfo =
  name :: string
  type :: string
  hasMissingValues :: bool
  totalRows :: nat
  missingCount :: nat
  stats :: "'n Stats option"

text \<open>\<^verbatim>\<open>row[colIndex]\<close>: \<^verbatim>\<open>undefined\<close>, here \<open>None\<close>, beyond the end of the row.\<close>

definition cellAt :: "string list \<Rightarrow> nat \<Rightarrow> string option" where
  "cellAt r colIndex = (if colIndex < length r then Some (r ! colIndex) else None)"

text \<open>\<^verbatim>\<open>rows.map(row => row[colIndex]).filter(v => v !== undefined)\<close>\<close>

definition columnValues :: "string list list \<Rightarrow> nat \<Rightarrow> string list" where
  "columnValues rows colIndex =
     map the (filter (\<lambda>v. v \<noteq> None) (map (\<lambda>r. cellAt r colIndex) rows))"

text \<open>\<^verbatim>\<open>columnValues.filter(v => v !== null && v.trim() !== '')\<close>\<close>

definition nonMissingValues :: "string list list \<Rightarrow> nat \<Rightarrow> string list" where
  "nonMissingValues rows colIndex = filter (\<lambda>v. trim v \<noteq> []) (columnValues rows colIndex)"

text \<open>The body of \<^verbatim>\<open>headers.map((header, colIndex) => ...)\<close>.\<close>

definition profileColumn :: "'n NumberOps \<Rightarrow> string list list \<Rightarrow> string \<Rightarrow> nat \<Rightarrow> 'n ColumnInfo" where
  "profileColumn num rows header colIndex =
     (let cvs = columnValues rows colIndex;
          nmv = nonMissingValues rows colIndex;
          mc = length cvs - length nmv;
          tr = length rows;
          isPotentiallyNumeric = list_all (isNumeric num) nmv;
          columnInfo = \<lparr>name = header, type = ''String'', hasMissingValues = (0 < mc),
                        totalRows = tr, missingCount = mc, stats = None\<rparr>
      in if isPotentiallyNumeric \<and> 0 < length nmv
         then columnInfo\<lparr>type := ''Numeric'',
                         stats := Some (Numeric (getNumericStats num (map (toNumber num) nmv)))\<rparr>
         else (if card (set nmv) \<le> 2 \<and> 0 < length nmv
               then columnInfo\<lparr>type := ''Boolean''\<rparr>
               else columnInfo)
              \<lparr>stats := Some (Categorical (getCategoricalStats nmv))\<rparr>)"

definition profileColumns :: "'n NumberOps \<Rightarrow> string list \<Rightarrow> string list list \<Rightarrow> 'n ColumnInfo list" where
  "profileColumns num headers rows =
     map (\<lambda>(colIndex, header). profileColumn num rows header colIndex) (enumerate 0 headers)"

definition analyzeColumns :: "'n NumberOps \<Rightarrow> string \<Rightarrow> 'n ColumnInfo list" where
  "analyzeColumns num csvText =
     (let lines = csvLines csvText in
      if length lines < 2 then []
      else
        let headers = parseLine (hd lines);
            rows = map parseLine (tl lines)
        in profileColumns num headers rows)"

section \<open>Integrity validator (\<^verbatim>\<open>App.tsx\<close>, lines 131 to 163)\<close>

datatype IssueType = INCONSISTENT_ROW_LENGTH | MIXED_DATA_TYPE

record ValidationIssue =
  kind :: IssueType
  column :: "string option"
  row :: nat
  "value" :: "string option"
  message :: string

text \<open>The body of \<^verbatim>\<open>rows.forEach((row, rowIndex) => ...)\<close>: the issues one row pushes.\<close>

definition rowIssues ::
  "'n NumberOps \<Rightarrow> string list \<Rightarrow> string list \<Rightarrow> nat \<Rightarrow> string list \<Rightarrow> ValidationIssue list" where
  "rowIssues num headers numericColumns rowIndex r =
     (if length r \<noteq> length headers
      then [\<lparr>kind = INCONSISTENT_ROW_LENGTH, column = None, row = rowIndex + 2, value = None,
              message = ''Expected '' @ showNat (length headers) @ '' columns, but found ''
                        @ showNat (length r) @ ''.''\<rparr>]
      else concat (map (\<lambda>(colIndex, cell).
             let header = headers ! colIndex in
             if header \<in> set numericColumns \<and> trim cell \<noteq> [] \<and> \<not> isNumeric num cell
             then [\<lparr>kind = MIXED_DATA_TYPE, column = Some header, row = rowIndex + 2,
                     value = Some cell,
                     message = ''Found non-numeric value '' @ [DQ] @ cell @ [DQ]
                               @ '' in the supposedly numeric column '' @ [DQ] @ header @ [DQ]
                               @ ''.''\<rparr>]
             else []) (enumerate 0 r)))"

definition validateCsvData ::
  "'n NumberOps \<Rightarrow> string list \<Rightarrow> string list list \<Rightarrow> 'n ColumnInfo list \<Rightarrow> ValidationIssue list" where
  "validateCsvData num headers rows columnInfo =
     (let numericColumns = map name (filter (\<lambda>c. type c = ''Numeric'') columnInfo)
      in concat (map (\<lambda>(rowIndex, r). rowIssues num headers numericColumns rowIndex r)
                     (enumerate 0 rows)))"

section \<open>Type inferencer of the earlier pass (\<^verbatim>\<open>part_007\<close>, lines 16 to 79)\<close>

text \<open>
  The earlier version of the application classifies single cells and reduces the
  classifications found under a header name to one column type. Its
  \<^verbatim>\<open>ColumnInfo\<close> has three fields.
\<close>

definition inferDataType :: "'n NumberOps \<Rightarrow> string \<Rightarrow> string" where
  "inferDataType num v =
     (if trim v = [] then ''String''
      else if toLowerCase v \<in> set [''true'', ''false'', ''yes'', ''no'', ''0'', ''1''] then ''Boolean''
      else if \<not> isNaN num (toNumber num v) \<and> trim v \<noteq> [] then ''Numeric''
      else ''String'')"

record ColumnInfo0 =
  name0 :: string
  type0 :: string
  hasMissingValues0 :: bool

text \<open>\<^verbatim>\<open>set.add(x)\<close> on a \<^verbatim>\<open>Set\<close>, kept as a list in insertion order.\<close>

definition setAdd :: "string \<Rightarrow> string list \<Rightarrow> string list" where
  "setAdd x xs = (if x \<in> set xs then xs else xs @ [x])"

text \<open>
  The two accumulators of the scan: \<^verbatim>\<open>columnTypes\<close>, a dictionary from header name to
  the \<^verbatim>\<open>Set\<close> of classifications seen, and \<^verbatim>\<open>columnsWithMissingValues\<close>. Columns
  that share a header name share one entry. Header names that are keys of
  \<^verbatim>\<open>Object.prototype\<close> are not modelled.
\<close>

record Gather =
  columnTypes :: "string \<Rightarrow> string list"
  columnsWithMissingValues :: "string list"

text \<open>The body of \<^verbatim>\<open>headers.forEach((header, index) => ...)\<close> for one row.\<close>

definition cellStep :: "'n NumberOps \<Rightarrow> string list \<Rightarrow> Gather \<Rightarrow> nat \<times> string \<Rightarrow> Gather" where
  "cellStep num r g ih =
     (case ih of (index, header) \<Rightarrow>
        if header \<noteq> [] then
          (case cellAt r index of
             None \<Rightarrow> g\<lparr>columnsWithMissingValues := setAdd header (columnsWithMissingValues g)\<rparr>
           | Some cellValue \<Rightarrow>
               if trim cellValue = []
               then g\<lparr>columnsWithMissingValues := setAdd header (columnsWithMissingValues g)\<rparr>
               else g\<lparr>columnTypes := (columnTypes g)
                        (header := setAdd (inferDataType num cellValue) (columnTypes g header))\<rparr>)
        else g)"

definition rowStep :: "'n NumberOps \<Rightarrow> string list \<Rightarrow> Gather \<Rightarrow> string list \<Rightarrow> Gather" where
  "rowStep num headers g r = foldl (cellStep num r) g (enumerate 0 headers)"

definition gather :: "'n NumberOps \<Rightarrow> string list \<Rightarrow> string list list \<Rightarrow> Gather" where
  "gather num headers parsedRows =
     foldl (rowStep num headers) \<lparr>columnTypes = (\<lambda>h. []), columnsWithMissingValues = []\<rparr> parsedRows"

text \<open>The reduction of lines 62 to 76, on \<^verbatim>\<open>Array.from(columnTypes[header])\<close>.\<close>

definition resolveType :: "string list \<Rightarrow> string" where
  "resolveType types =
     (if length types = 0 then ''Empty''
      else if length types = 1 then types ! 0
      else if ''String'' \<in> set types then ''String (Mixed)''
      else if ''Numeric'' \<in> set types \<and> ''Boolean'' \<in> set types then ''Numeric''
      else ''Mixed'')"

definition analyzeColumns0 :: "'n NumberOps \<Rightarrow> string \<Rightarrow> ColumnInfo0 list" where
  "analyzeColumns0 num csvText =
     (let lines = csvLines csvText in
      if length lines = 0 then []
      else
        let headers = parseLine (hd lines);
            rows = take 50 (tl lines)
        in if length headers = 0 \<or> (length headers = 1 \<and> headers ! 0 = []) then []
           else
             let parsedRows = map parseLine rows;
                 g = gather num headers parsedRows
             in map (\<lambda>header. \<lparr>name0 = header,
                                 type0 = resolveType (columnTypes g header),
                                 hasMissingValues0 = (header \<in> set (columnsWithMissingValues g))\<rparr>)
                    (filter (\<lambda>h. h \<noteq> []) headers))"


definition cellsUnder :: "string list \<Rightarrow> string list list \<Rightarrow> string \<Rightarrow> string list" where
  "cellsUnder headers parsedRows h =
     concat (map (\<lambda>r. map snd (filter (\<lambda>hc. fst hc = h) (zip headers r))) parsedRows)"

definition presentTypes :: "'n NumberOps \<Rightarrow> string list \<Rightarrow> string list list \<Rightarrow> string \<Rightarrow> string set" where
  "presentTypes num headers parsedRows h =
     set (map (inferDataType num) (filter (\<lambda>v. trim v \<noteq> []) (cellsUnder headers parsedRows h)))"

text \<open>The classifications of the non-blank cells paired with header \<open>h\<close> in one row.\<close>

definition typesIn :: "'n NumberOps \<Rightarrow> (string \<times> string) list \<Rightarrow> string \<Rightarrow> string set" where
  "typesIn num hcs h =
     set (map (inferDataType num) (filter (\<lambda>v. trim v \<noteq> []) (map snd (filter (\<lambda>hc. fst hc = h) hcs))))"


section \<open>Payload extractor and response handler (\<^verbatim>\<open>App.tsx\<close>, lines 283 to 331)\<close>

text \<open>
  The two patterns are \<^verbatim>\<open>/```json\n([\s\S]*?)\n```/\<close> and \<^verbatim>\<open>/```csv\n([\s\S]*?)\n```/\<close>:
  an opening fence with its tag and a line feed, a lazy group that matches any
  characters, and a line feed with the closing fence. A match starts at the first
  occurrence of the opening text that has a closing text after it, and its group ends at
  the first such closing text; if the first opening has no closing text after it, no
  later one has. \<open>findSub\<close> is the first occurrence of a text: what stands before it
  and what stands after it.
\<close>

fun startsWith :: "string \<Rightarrow> string \<Rightarrow> bool" where
  "startsWith [] s = True"
| "startsWith (p # ps) [] = False"
| "startsWith (p # ps) (c # cs) = (p = c \<and> startsWith ps cs)"

fun findSub :: "string \<Rightarrow> string \<Rightarrow> (string \<times> string) option" where
  "findSub pat [] = (if pat = [] then Some ([], []) else None)"
| "findSub pat (c # cs) =
     (if startsWith pat (c # cs) then Some ([], drop (length pat) (c # cs))
      else (case findSub pat cs of
              None \<Rightarrow> None
            | Some (before, after) \<Rightarrow> Some (c # before, after)))"

definition fenceOpen :: "string \<Rightarrow> string" where
  "fenceOpen tag = [BT, BT, BT] @ tag @ [NL]"

definition fenceClose :: string where
  "fenceClose = [NL, BT, BT, BT]"

text \<open>\<^verbatim>\<open>text.match(regex)\<close>: the text before the match, the group, the text after.\<close>

definition regexMatch :: "string \<Rightarrow> string \<Rightarrow> (string \<times> string \<times> string) option" where
  "regexMatch tag txt =
     (case findSub (fenceOpen tag) txt of
        None \<Rightarrow> None
      | Some (pre, rest) \<Rightarrow>
          (case findSub fenceClose rest of
             None \<Rightarrow> None
           | Some (body, post) \<Rightarrow> Some (pre, body, post)))"

text \<open>\<^verbatim>\<open>text.replace(regex, '')\<close>: the pattern has no global flag, the first match goes.\<close>

definition regexRemove :: "string \<Rightarrow> string \<Rightarrow> string" where
  "regexRemove tag txt =
     (case regexMatch tag txt of
        None \<Rightarrow> txt
      | Some (pre, body, post) \<Rightarrow> pre @ post)"

text \<open>
  \<^verbatim>\<open>JSON.parse\<close> is a built-in too, the parameter \<open>jsonParse\<close>: \<open>None\<close> stands for the
  \<^verbatim>\<open>SyntaxError\<close> it throws. \<open>truthy\<close> is the test of \<^verbatim>\<open>chartData || undefined\<close>.
  The handler passes the parsed value on and reads nothing of it but that test; a
  number in it is kept as the real it stands for.
\<close>

datatype json =
  JNull
| JBool bool
| JNumber real
| JString string
| JArray "json list"
| JObject "(string \<times> json) list"

type_synonym jsonParser = "string \<Rightarrow> json option"

fun truthy :: "json \<Rightarrow> bool" where
  "truthy JNull = False"
| "truthy (JBool b) = b"
| "truthy (JNumber n) = (n \<noteq> 0)"
| "truthy (JString s) = (s \<noteq> [])"
| "truthy (JArray xs) = True"
| "truthy (JObject kvs) = True"

text \<open>
  Lines 292 to 319 as a function of the response text: the new dataset text if a csv
  block with a non-empty group was found, the residual text, and the parsed chart value.
  The chart pattern is matched against the response text (line 295) but removed from
  the text as the csv step left it (line 315).
\<close>

definition extractPayloads :: "jsonParser \<Rightarrow> string \<Rightarrow> string option \<times> string \<times> json option" where
  "extractPayloads jsonParse aiResponse =
     (let chartMatch = regexMatch ''json'' aiResponse;
          csvMatch = regexMatch ''csv'' aiResponse;
          (newCsvData, responseText) =
             (case csvMatch of
                None \<Rightarrow> (None, aiResponse)
              | Some (pre, body, post) \<Rightarrow>
                  if body \<noteq> [] then (Some (trim body), trim (regexRemove ''csv'' aiResponse))
                  else (None, aiResponse))
      in case chartMatch of
           None \<Rightarrow> (newCsvData, responseText, None)
         | Some (pre, body, post) \<Rightarrow>
             if body \<noteq> [] then
               (case jsonParse body of
                  None \<Rightarrow> (newCsvData, responseText, None)
                | Some chartData \<Rightarrow>
                    (newCsvData, trim (regexRemove ''json'' responseText), Some chartData))
             else (newCsvData, responseText, None))"

datatype Sender = user | ai | system

text \<open>
  A message without its \<^verbatim>\<open>id\<close>, which is the clock reading of \<^verbatim>\<open>addMessage\<close>;
  the field \<^verbatim>\<open>text\<close> is \<open>msgText\<close>.
\<close>

record Message =
  sender :: Sender
  msgText :: string
  chartData :: "json option"

text \<open>The state \<^verbatim>\<open>uploadedFile\<close>; its field \<^verbatim>\<open>name\<close> is \<open>fileName\<close>.\<close>

record 'n UploadedFile =
  fileName :: string
  columns :: "'n ColumnInfo list"

record 'n AppState =
  messages :: "Message list"
  isLoading :: bool
  uploadedFile :: "'n UploadedFile option"
  csvData :: "string option"

definition addMessage :: "Message \<Rightarrow> 'n AppState \<Rightarrow> 'n AppState" where
  "addMessage m st = st\<lparr>messages := messages st @ [m]\<rparr>"

text \<open>
  The external text generation service, \<^verbatim>\<open>analyzeDataWithGemini\<close>, is a parameter:
  \<open>None\<close> stands for a rejected promise. The updater of line 306 reads
  \<^verbatim>\<open>prev!.name\<close>; with no uploaded file it raises a \<^verbatim>\<open>TypeError\<close> when the framework
  runs it, outside the handler's \<^verbatim>\<open>try\<close>.
\<close>

datatype error = UpdaterTypeError

type_synonym 'n gemini = "string \<Rightarrow> 'n ColumnInfo list \<Rightarrow> string option \<Rightarrow> string option"

definition replyMessage :: "string \<Rightarrow> json option \<Rightarrow> Message" where
  "replyMessage responseText chart =
     \<lparr>sender = ai, msgText = responseText,
      chartData = (case chart of None \<Rightarrow> None | Some j \<Rightarrow> (if truthy j then Some j else None))\<rparr>"

definition finishSend :: "Message \<Rightarrow> 'n AppState \<Rightarrow> 'n AppState" where
  "finishSend m st = (addMessage m st)\<lparr>isLoading := False\<rparr>"

text \<open>Lines 303 to 309: the state after a csv block with a non-empty group.\<close>

definition applyDataset :: "'n NumberOps \<Rightarrow> string \<Rightarrow> 'n AppState \<Rightarrow> error + 'n AppState" where
  "applyDataset num newCsvData st =
     (case uploadedFile st of
        None \<Rightarrow> Inl UpdaterTypeError
      | Some prev \<Rightarrow>
          Inr (addMessage
                 \<lparr>sender = system,
                  msgText = ''Dataset has been updated. Column analysis is refreshed.'',
                  chartData = None\<rparr>
                 (st\<lparr>csvData := Some newCsvData,
                     uploadedFile := Some \<lparr>fileName = fileName prev,
                                           columns = analyzeColumns num newCsvData\<rparr>\<rparr>)))"

definition processResponse :: "'n NumberOps \<Rightarrow> jsonParser \<Rightarrow> string \<Rightarrow> 'n AppState \<Rightarrow> error + 'n AppState" where
  "processResponse num jsonParse aiResponse st =
     (case extractPayloads jsonParse aiResponse of
        (None, responseText, chart) \<Rightarrow> Inr (finishSend (replyMessage responseText chart) st)
      | (Some newCsvData, responseText, chart) \<Rightarrow>
          (case applyDataset num newCsvData st of
             Inl e \<Rightarrow> Inl e
           | Inr st' \<Rightarrow> Inr (finishSend (replyMessage responseText chart) st')))"

definition handleSend ::
  "'n NumberOps \<Rightarrow> jsonParser \<Rightarrow> 'n gemini \<Rightarrow> string \<Rightarrow> 'n AppState \<Rightarrow> error + 'n AppState" where
  "handleSend num jsonParse service txt st =
     (if isLoading st \<or> trim txt = [] then Inr st
      else
        let st1 = (addMessage \<lparr>sender = user, msgText = txt, chartData = None\<rparr> st)\<lparr>isLoading := True\<rparr>
        in (case service txt (case uploadedFile st of None \<Rightarrow> [] | Some f \<Rightarrow> columns f) (csvData st) of
              None \<Rightarrow>
                Inr (finishSend
                       \<lparr>sender = ai,
                        msgText = ''Sorry, I encountered an error. Please check your API key and try again.'',
                        chartData = None\<rparr> st1)
            | Some aiResponse \<Rightarrow> processResponse num jsonParse aiResponse st1))"

section \<open>Sample inputs\<close>

text \<open>
  A fenced block as the patterns read it, the number of places where a text occurs,
  an instance of the \<open>jsonParse\<close> parameter that parses the empty object only, and the
  response texts, table texts and states that the evaluations below use.
\<close>

definition fencedBlock :: "string \<Rightarrow> string \<Rightarrow> string" where
  "fencedBlock tag body = fenceOpen tag @ body @ fenceClose"

fun countSub :: "string \<Rightarrow> string \<Rightarrow> nat" where
  "countSub pat [] = 0"
| "countSub pat (c # cs) = (if startsWith pat (c # cs) then 1 else 0) + countSub pat cs"

definition sampleParser :: jsonParser where
  "sampleParser s = (if s = ''{}'' then Some (JObject []) else None)"

definition seamCsvFirst :: string where
  "seamCsvFirst = ''```j'' @ fencedBlock ''csv'' (''a'' @ [NL] @ ''1'') @ (''son'' @ [NL] @ ''foo'' @ [NL])
                  @ fencedBlock ''json'' ''{}''"

definition seamJsonFirst :: string where
  "seamJsonFirst = ''```j'' @ fencedBlock ''json'' ''{}'' @ (''son'' @ [NL] @ ''foo'' @ [NL])
                   @ fencedBlock ''csv'' (''a'' @ [NL] @ ''1'')"

definition emptyCsvBody :: string where
  "emptyCsvBody = fencedBlock ''csv'' [] @ [NL] @ fencedBlock ''json'' ''{}''"

definition headerOnlyResponse :: string where
  "headerOnlyResponse = ''Done.'' @ [NL] @ fencedBlock ''csv'' ''onlyheader''"

definition loadedState :: "(real option) AppState" where
  "loadedState =
     \<lparr>messages = [], isLoading = False,
      uploadedFile = Some \<lparr>fileName = ''data.csv'',
                            columns = analyzeColumns exactOps (''a,b'' @ [NL] @ ''1,2'')\<rparr>,
      csvData = Some (''a,b'' @ [NL] @ ''1,2'')\<rparr>"

definition badJsonResponse :: string where
  "badJsonResponse = ''Hi'' @ [NL] @ ''```json'' @ [NL] @ ''{bad'' @ [NL] @ ''```''"

definition idleState :: "(real option) AppState" where
  "idleState = \<lparr>messages = [], isLoading = False, uploadedFile = None, csvData = None\<rparr>"

definition sampleCsvBody :: string where
  "sampleCsvBody = ''a'' @ [NL] @ ''1''"

definition codeSpanBefore :: string where
  "codeSpanBefore = ''Use `x`: ''"

definition codeSpanAfter :: string where
  "codeSpanAfter = '' or `y`.''"

definition brokenJsonAfterCsv :: string where
  "brokenJsonAfterCsv = fencedBlock ''csv'' (''a'' @ [NL] @ ''1'') @ [NL] @ fencedBlock ''json'' ''{bad''"

definition emptyJsonBody :: string where
  "emptyJsonBody = fencedBlock ''csv'' (''a'' @ [NL] @ ''1'') @ [NL] @ fencedBlock ''json'' []"

definition strayFence :: string where
  "strayFence = fencedBlock ''csv'' (''a'' @ [NL] @ ''1'') @ [NL] @ fencedBlock ''json'' ''{}'' @ ''```json'' @ [NL] @ ''x''"

definition overlapResponse :: string where
  "overlapResponse = ''```csv'' @ [NL] @ ''a'' @ [NL] @ ''```json'' @ [NL] @ ''{bad'' @ [NL] @ ''```''"

definition nestedResponse :: string where
  "nestedResponse = ''```csv'' @ [NL] @ ''```json'' @ [NL] @ ''{bad'' @ [NL] @ ''```''"

definition csvThenBadJson :: string where
  "csvThenBadJson = (''Hi'' @ [NL]) @ fencedBlock ''csv'' sampleCsvBody @ [NL] @ fencedBlock ''json'' ''{bad'' @ '' bye''"



section \<open>Properties of trimming\<close>

lemma trimStart_nonspace: "\<not> isSpace a \<Longrightarrow> trimStart (x @ a # r) = trimStart x @ a # r"
  by (simp add: trimStart_def dropWhile_append)

lemma trimEnd_nonspace: "\<not> isSpace a \<Longrightarrow> trimEnd (r @ a # y) = r @ a # trimEnd y"
  by (simp add: trimEnd_def dropWhile_append)

lemma BT_not_space: "\<not> isSpace BT"
  by (simp add: isSpace_def BT_def)

lemma trim_block: "trim (x @ fencedBlock tag b @ y) = trimStart x @ fencedBlock tag b @ trimEnd y"
proof -
  have "fencedBlock tag b = BT # (BT # BT # tag @ NL # b @ [NL, BT, BT]) @ [BT]"
    by (simp add: fencedBlock_def fenceOpen_def fenceClose_def)
  then obtain mid where f: "fencedBlock tag b = BT # mid @ [BT]"
    by blast
  have "trimStart (x @ fencedBlock tag b @ y) = trimStart x @ BT # mid @ BT # y"
    unfolding f using trimStart_nonspace [OF BT_not_space, of x "mid @ BT # y"] by simp
  moreover have "trimEnd ((trimStart x @ BT # mid) @ BT # y) = (trimStart x @ BT # mid) @ BT # trimEnd y"
    using BT_not_space by (rule trimEnd_nonspace)
  ultimately show ?thesis
    by (simp add: trim_def f)
qed

lemma set_trimStart: "set (trimStart x) \<subseteq> set x"
  by (auto simp add: trimStart_def dest: set_dropWhileD)

lemma set_trimEnd: "set (trimEnd x) \<subseteq> set x"
  by (auto simp add: trimEnd_def dest: set_dropWhileD)

lemma set_trim: "set (trim x) \<subseteq> set x"
  unfolding trim_def using set_trimStart set_trimEnd by blast

lemma trimStart_trimStart_append: "trimStart (trimStart x @ z) = trimStart (x @ z)"
proof (cases "\<forall>c\<in>set x. isSpace c")
  case True
  then have e: "dropWhile isSpace x = []"
    by simp
  show ?thesis
    unfolding trimStart_def e using True by (simp add: dropWhile_append)
next
  case False
  then obtain a where a: "a \<in> set x" "\<not> isSpace a"
    by blast
  then have r: "dropWhile isSpace (x @ z) = dropWhile isSpace x @ z"
    by (rule dropWhile_append1)
  from False have "dropWhile isSpace x \<noteq> []"
    by simp
  then obtain c cs where d: "dropWhile isSpace x = c # cs"
    by (cases "dropWhile isSpace x") auto
  then have "\<not> isSpace c"
    using hd_dropWhile [of isSpace x] by simp
  then have "dropWhile isSpace (dropWhile isSpace x @ z) = dropWhile isSpace x @ z"
    unfolding d by simp
  then show ?thesis
    unfolding trimStart_def r by simp
qed

lemma trimEnd_trimEnd_append: "trimEnd (z @ trimEnd y) = trimEnd (z @ y)"
  using trimStart_trimStart_append [of "rev y" "rev z"]
  by (simp add: trimEnd_def trimStart_def)

lemma trimStart_trimEnd: "trimStart (trimEnd x) = trimEnd (trimStart x)"
proof (cases "\<forall>c\<in>set x. isSpace c")
  case True
  then have e: "dropWhile isSpace x = []" "dropWhile isSpace (rev x) = []"
    by simp_all
  show ?thesis unfolding trimStart_def trimEnd_def e by simp
next
  case False
  then have "\<exists>c\<in>set x. \<not> isSpace c"
    by simp
  then obtain w a r where x: "x = w @ a # r" and a: "\<not> isSpace a" and w: "\<forall>c\<in>set w. \<not> \<not> isSpace c"
    by (rule split_list_first_propE)
  have w0: "trimStart w = []"
    using w by (simp add: trimStart_def)
  have "trimStart (trimEnd x) = trimStart (w @ a # trimEnd r)"
    unfolding x using a by (simp add: trimEnd_nonspace)
  also have "\<dots> = a # trimEnd r"
    using a w0 by (simp add: trimStart_nonspace)
  also have "\<dots> = trimEnd ([] @ a # r)"
    using trimEnd_nonspace [OF a, of "[]" r] by simp
  also have "\<dots> = trimEnd (trimStart x)"
    unfolding x using a w0 by (simp add: trimStart_nonspace)
  finally show ?thesis .
qed

lemma trim_join: "trim (trimStart x @ trimEnd y) = trim (x @ y)"
proof -
  have "trim (trimStart x @ trimEnd y) = trimEnd (trimStart (x @ trimEnd y))"
    by (simp add: trim_def trimStart_trimStart_append)
  also have "\<dots> = trimStart (trimEnd (x @ trimEnd y))"
    by (simp add: trimStart_trimEnd)
  also have "\<dots> = trimStart (trimEnd (x @ y))"
    by (simp add: trimEnd_trimEnd_append)
  finally show ?thesis
    by (simp add: trim_def trimStart_trimEnd)
qed

lemma trimStart_decomp: "\<exists>w. x = w @ trimStart x \<and> (\<forall>c\<in>set w. isSpace c)"
proof -
  have "x = takeWhile isSpace x @ trimStart x"
    by (simp add: trimStart_def)
  moreover have "\<forall>c\<in>set (takeWhile isSpace x). isSpace c"
    by (auto dest: set_takeWhileD)
  ultimately show ?thesis
    by blast
qed

lemma trim_decomp:
  "\<exists>l r. x = l @ trim x @ r \<and> (\<forall>c\<in>set l. isSpace c) \<and> (\<forall>c\<in>set r. isSpace c)"
proof -
  let ?l = "takeWhile isSpace x" and ?r = "rev (takeWhile isSpace (rev (trimStart x)))"
  have "trimStart x = trim x @ ?r"
    unfolding trim_def trimEnd_def by (metis rev_append rev_rev_ident takeWhile_dropWhile_id)
  moreover have "x = ?l @ trimStart x"
    by (simp add: trimStart_def)
  ultimately have "x = ?l @ trim x @ ?r"
    by simp
  moreover have "\<forall>c\<in>set ?l. isSpace c" "\<forall>c\<in>set ?r. isSpace c"
    by (auto dest: set_takeWhileD)
  ultimately show ?thesis
    by blast
qed

lemma trim_ends: "trim h \<noteq> [] \<Longrightarrow> \<not> isSpace (hd (trim h)) \<and> \<not> isSpace (last (trim h))"
proof -
  assume n: "trim h \<noteq> []"
  have "dropWhile isSpace (rev (trimStart h)) \<noteq> []"
    using n by (simp add: trim_def trimEnd_def)
  then have "\<not> isSpace (hd (dropWhile isSpace (rev (trimStart h))))"
    by (rule hd_dropWhile)
  then have l: "\<not> isSpace (last (trim h))"
    using n by (simp add: trim_def trimEnd_def last_rev)
  have t: "trim h = dropWhile isSpace (trimEnd h)"
    using trimStart_trimEnd [of h] by (simp add: trim_def trimStart_def)
  then have "dropWhile isSpace (trimEnd h) \<noteq> []"
    using n by simp
  then have "\<not> isSpace (hd (dropWhile isSpace (trimEnd h)))"
    by (rule hd_dropWhile)
  with t l show ?thesis
    by simp
qed

section \<open>Properties of the cell parser\<close>

lemma removeQuotes_no_DQ: "DQ \<notin> set (removeQuotes s)"
  by (simp add: removeQuotes_def)

lemma removeQuotes_id: "DQ \<notin> set s \<Longrightarrow> removeQuotes s = s"
  by (auto simp add: removeQuotes_def filter_id_conv)

text \<open>
  Claim C5 says that the parser trims a header or cell and strips one leading and one
  trailing double quote when both are present, leaving internal double quotes alone.
  The code deletes every double quote of the trimmed text instead: the cell \<open>a"b\<close>
  becomes \<open>ab\<close>, where the claim keeps it.
\<close>

theorem C5_internal_quote_counterexample:
  "cleanCell (''a'' @ [DQ] @ ''b'') = ''ab'' \<and>
   spec_unquote (''a'' @ [DQ] @ ''b'') = ''a'' @ [DQ] @ ''b'' \<and>
   parseLine (''a'' @ [DQ] @ ''b,c'') = [''ab'', ''c'']"
  by (simp add: parseLine_def cleanCell_def spec_unquote_def removeQuotes_def trim_def trimStart_def
      trimEnd_def isSpace_def DQ_def)

text \<open>
  Claim C5, amended: the parser trims a header or cell, taking away the white space
  before its first and after its last character that is not white space, and then
  removes every double quote of the trimmed text, leading, trailing or internal. The
  parsed value is the trimmed text without its double quotes, and a line parses to the
  list of these values of its pieces between commas. The value never contains a double
  quote; it agrees with stripping one leading and one trailing double quote exactly
  when that stripping leaves no double quote behind.
\<close>

theorem C5_cleanCell_removes_every_quote:
  "cleanCell h = filter (\<lambda>c. c \<noteq> DQ) (trim h)
   \<and> parseLine line = map (\<lambda>cell. filter (\<lambda>c. c \<noteq> DQ) (trim cell)) (split (CHR '','') line)
   \<and> (\<exists>l r. h = l @ trim h @ r \<and> (\<forall>c\<in>set l. isSpace c) \<and> (\<forall>c\<in>set r. isSpace c))
   \<and> (trim h \<noteq> [] \<longrightarrow> \<not> isSpace (hd (trim h)) \<and> \<not> isSpace (last (trim h)))
   \<and> DQ \<notin> set (cleanCell h)
   \<and> (cleanCell h = spec_unquote h) = (DQ \<notin> set (spec_unquote h))"
proof -
  define t where "t = trim h"
  have f: "cleanCell x = filter (\<lambda>c. c \<noteq> DQ) (trim x)" for x
    by (simp add: cleanCell_def removeQuotes_def)
  have p: "parseLine line = map (\<lambda>cell. filter (\<lambda>c. c \<noteq> DQ) (trim cell)) (split (CHR '','') line)"
    by (simp add: parseLine_def cleanCell_def removeQuotes_def comp_def)
  have a: "DQ \<notin> set (cleanCell h)"
    by (simp add: cleanCell_def removeQuotes_no_DQ)
  have b: "cleanCell h = spec_unquote h" if nq: "DQ \<notin> set (spec_unquote h)"
  proof (cases "2 \<le> length t \<and> hd t = DQ \<and> last t = DQ")
    case True
    then have ne: "t \<noteq> []" "tl t \<noteq> []"
      by (cases t; auto)+
    then have dec: "t = DQ # butlast (tl t) @ [DQ]"
      using True by (metis append_butlast_last_id last_tl list.collapse)
    have "spec_unquote h = butlast (tl t)"
      using True by (simp add: spec_unquote_def t_def Let_def)
    with nq have "DQ \<notin> set (butlast (tl t))"
      by simp
    then have "removeQuotes t = butlast (tl t)"
      by (subst dec) (auto simp add: removeQuotes_def filter_id_conv)
    then show ?thesis
      using True by (simp add: spec_unquote_def cleanCell_def t_def Let_def)
  next
    case False
    then have "spec_unquote h = t"
      by (auto simp add: spec_unquote_def t_def Let_def)
    with nq show ?thesis
      by (simp add: cleanCell_def t_def removeQuotes_id)
  qed
  from a b have c: "(cleanCell h = spec_unquote h) = (DQ \<notin> set (spec_unquote h))"
    by metis
  from f [of h] p trim_decomp [of h] trim_ends [of h] a c show ?thesis
    by blast
qed

theorem C5_cleanCell_witness:
  "trim ('' '' @ [DQ] @ ''x y'' @ [DQ] @ '' '') = [DQ] @ ''x y'' @ [DQ]
   \<and> trim ('' '' @ [DQ] @ ''x y'' @ [DQ] @ '' '') \<noteq> []
   \<and> cleanCell ('' '' @ [DQ] @ ''x y'' @ [DQ] @ '' '') = ''x y''
   \<and> DQ \<notin> set (cleanCell ('' '' @ [DQ] @ ''x y'' @ [DQ] @ '' ''))
   \<and> spec_unquote ('' '' @ [DQ] @ ''x y'' @ [DQ] @ '' '') = ''x y''
   \<and> \<not> isSpace (hd (trim ('' '' @ [DQ] @ ''x y'' @ [DQ] @ '' '')))"
  using C5_cleanCell_removes_every_quote [of "'' '' @ [DQ] @ ''x y'' @ [DQ] @ '' ''" "[]"]
  by (simp add: spec_unquote_def trim_def trimStart_def trimEnd_def isSpace_def DQ_def)

section \<open>Properties of the profiling pass\<close>

lemma cellAt_take: "i < n \<Longrightarrow> cellAt (take n r) i = cellAt r i"
  by (simp add: cellAt_def)

lemma columnValues_take: "i < n \<Longrightarrow> columnValues (map (take n) rows) i = columnValues rows i"
  by (simp add: columnValues_def comp_def cellAt_take)

lemma profileColumn_take:
  "i < n \<Longrightarrow> profileColumn num (map (take n) rows) header i = profileColumn num rows header i"
  by (simp add: profileColumn_def nonMissingValues_def columnValues_take)

lemma enumerate_index_bound: "(i, h) \<in> set (enumerate 0 hs) \<Longrightarrow> i < length hs"
  by (simp add: in_set_enumerate_eq)

lemma profileColumns_nth:
  "k < length headers \<Longrightarrow> profileColumns num headers rows ! k = profileColumn num rows (headers ! k) k"
  by (simp add: profileColumns_def nth_enumerate_eq)

lemma length_columnValues: "length (columnValues rows k) = length (filter (\<lambda>r. k < length r) rows)"
  by (induction rows) (simp_all add: columnValues_def cellAt_def)

lemma length_nonMissing_le: "length (nonMissingValues rows k) \<le> length (columnValues rows k)"
  by (simp add: nonMissingValues_def)

lemma missingCount_profileColumn:
  "missingCount (profileColumn num rows header k) =
     length (columnValues rows k) - length (nonMissingValues rows k)"
  by (simp add: profileColumn_def Let_def)

lemma totalRows_profileColumn: "totalRows (profileColumn num rows header k) = length rows"
  by (simp add: profileColumn_def Let_def)

lemma csvLines_two_lines: "csvLines (''a,b'' @ [NL] @ ''1'') = [''a,b'', ''1'']"
  by (simp add: csvLines_def trim_def trimStart_def trimEnd_def isSpace_def NL_def)

lemma parseLine_samples: "parseLine ''a,b'' = [''a'', ''b'']" "parseLine ''1'' = [''1'']"
  by (simp_all add: parseLine_def cleanCell_def removeQuotes_def trim_def trimStart_def trimEnd_def
      isSpace_def DQ_def)

text \<open>
  Claim C3 says that for every column profile the missing count plus the number of
  non-missing cells is the number of data rows, also when rows are shorter than the
  header. On the text of header \<open>a,b\<close> and the one data row \<open>1\<close>, the profile of column
  \<open>b\<close> has missing count 0 and no non-missing cell, and one data row.
\<close>

theorem C3_short_row_counterexample:
  "missingCount (analyzeColumns exactOps (''a,b'' @ [NL] @ ''1'') ! 1) = 0
   \<and> length (nonMissingValues (map parseLine (tl (csvLines (''a,b'' @ [NL] @ ''1'')))) 1) = 0
   \<and> totalRows (analyzeColumns exactOps (''a,b'' @ [NL] @ ''1'') ! 1) = 1"
  unfolding analyzeColumns_def csvLines_two_lines
  by (simp add: parseLine_samples profileColumns_nth missingCount_profileColumn
      totalRows_profileColumn nonMissingValues_def columnValues_def cellAt_def)

text \<open>
  Claim C3, amended: for every column profile, the missing count plus the number of
  non-missing cells is the number of data rows that have a cell at the column's index;
  that number is at most \<open>totalRows\<close>, the number of data rows, and equals it when every
  row reaches the column's index (so when no row is shorter than the header).
\<close>

theorem C3_missing_plus_present:
  assumes "k < length headers"
  shows "missingCount (profileColumns num headers rows ! k) + length (nonMissingValues rows k)
           = length (filter (\<lambda>r. k < length r) rows)
       \<and> length (filter (\<lambda>r. k < length r) rows) \<le> totalRows (profileColumns num headers rows ! k)
       \<and> totalRows (profileColumns num headers rows ! k) = length rows
       \<and> (list_all (\<lambda>r. k < length r) rows \<longrightarrow>
            missingCount (profileColumns num headers rows ! k) + length (nonMissingValues rows k)
              = totalRows (profileColumns num headers rows ! k))"
proof -
  have a: "missingCount (profileColumns num headers rows ! k) + length (nonMissingValues rows k)
           = length (filter (\<lambda>r. k < length r) rows)"
    using assms length_nonMissing_le [of rows k]
    by (simp add: profileColumns_nth missingCount_profileColumn length_columnValues)
  have b: "totalRows (profileColumns num headers rows ! k) = length rows"
    using assms by (simp add: profileColumns_nth totalRows_profileColumn)
  have c: "list_all (\<lambda>r. k < length r) rows \<Longrightarrow> filter (\<lambda>r. k < length r) rows = rows"
    by (simp add: list_all_iff)
  from a b c show ?thesis
    by auto
qed

theorem C3_missing_plus_present_witness:
  "(1 :: nat) < length [''a'', ''b'']
   \<and> list_all (\<lambda>r. 1 < length r) [[''1'', '' ''], [''2'', ''x'']]
   \<and> missingCount (profileColumns exactOps [''a'', ''b''] [[''1'', '' ''], [''2'', ''x'']] ! 1)
       + length (nonMissingValues [[''1'', '' ''], [''2'', ''x'']] 1)
     = totalRows (profileColumns exactOps [''a'', ''b''] [[''1'', '' ''], [''2'', ''x'']] ! 1)"
  using C3_missing_plus_present [where k = 1 and headers = "[''a'', ''b'']" and num = exactOps
      and rows = "[[''1'', '' ''], [''2'', ''x'']]"]
  by simp

text \<open>
  Claim C10: the cells a data row has beyond the header width have no effect on any
  column profile. The profiles of a table equal, field for field, the profiles of the
  table whose rows are cut to the header width.
\<close>

theorem C10_extra_cells_ignored:
  "profileColumns num headers (map (take (length headers)) rows) = profileColumns num headers rows"
  unfolding profileColumns_def
  by (rule map_cong) (auto simp add: profileColumn_take dest: enumerate_index_bound)

theorem C10_extra_cells_ignored_witness:
  "map (take (length [''a''])) [[''1'', ''zz''], [''2'']] = [[''1''], [''2'']] \<and>
   profileColumns exactOps [''a''] [[''1''], [''2'']]
     = profileColumns exactOps [''a''] [[''1'', ''zz''], [''2'']]"
  using C10_extra_cells_ignored [of exactOps "[''a'']" "[[''1'', ''zz''], [''2'']]"]
  by simp

section \<open>Properties of the integrity validator\<close>

lemma rowIssues_row: "x \<in> set (rowIssues num headers nc j r) \<Longrightarrow> row x = j + 2"
  by (auto simp add: rowIssues_def Let_def split: if_splits)

lemma filter_rowIssues:
  "filter (\<lambda>x. row x = m) (rowIssues num headers nc j r) = (if m = j + 2 then rowIssues num headers nc j r else [])"
proof (cases "m = j + 2")
  case True
  then show ?thesis by (simp add: rowIssues_row)
next
  case False
  then have "filter (\<lambda>x. row x = m) (rowIssues num headers nc j r) = []"
    by (intro filter_False) (auto dest: rowIssues_row)
  with False show ?thesis by simp
qed

lemma filter_issues_enumerate:
  "filter (\<lambda>x. row x = m)
     (concat (map (\<lambda>(j, r). rowIssues num headers nc j r) (enumerate n rows)))
   = (if n + 2 \<le> m \<and> m < n + 2 + length rows
      then rowIssues num headers nc (m - 2) (rows ! (m - 2 - n)) else [])"
proof (induction rows arbitrary: n)
  case Nil
  then show ?case by auto
next
  case (Cons r rows)
  let ?P = "\<lambda>x. row x = m"
  let ?f = "\<lambda>(j, r). rowIssues num headers nc j r"
  have "filter ?P (concat (map ?f (enumerate n (r # rows))))
        = filter ?P (rowIssues num headers nc n r) @ filter ?P (concat (map ?f (enumerate (Suc n) rows)))"
    by simp
  also have "\<dots> = (if m = n + 2 then rowIssues num headers nc n r else [])
        @ (if Suc n + 2 \<le> m \<and> m < Suc n + 2 + length rows
           then rowIssues num headers nc (m - 2) (rows ! (m - 2 - Suc n)) else [])"
    by (simp only: Cons.IH filter_rowIssues)
  also have "\<dots> = (if n + 2 \<le> m \<and> m < n + 2 + length (r # rows)
      then rowIssues num headers nc (m - 2) ((r # rows) ! (m - 2 - n)) else [])"
    by (auto simp add: nth_Cons')
  finally show ?case .
qed

text \<open>
  Claim C7: for every data row whose cell count differs from the header count, the
  validator emits exactly one issue for that row, an \<^verbatim>\<open>INCONSISTENT_ROW_LENGTH\<close> issue
  carrying the row number that counts the header as row 1 (row index plus 2), and no
  \<^verbatim>\<open>MIXED_DATA_TYPE\<close> issue for any cell of the row: the issues with that row number
  are that one issue.
\<close>

theorem C7_row_length_issue:
  assumes "i < length rows" and "length (rows ! i) \<noteq> length headers"
  shows "filter (\<lambda>x. row x = i + 2) (validateCsvData num headers rows columnInfo)
         = [\<lparr>kind = INCONSISTENT_ROW_LENGTH, column = None, row = i + 2, value = None,
              message = ''Expected '' @ showNat (length headers) @ '' columns, but found ''
                        @ showNat (length (rows ! i)) @ ''.''\<rparr>]"
proof -
  have "filter (\<lambda>x. row x = i + 2) (validateCsvData num headers rows columnInfo)
        = rowIssues num headers (map name (filter (\<lambda>c. type c = ''Numeric'') columnInfo)) i (rows ! i)"
    using assms(1) unfolding validateCsvData_def Let_def filter_issues_enumerate by simp
  also have "\<dots> = [\<lparr>kind = INCONSISTENT_ROW_LENGTH, column = None, row = i + 2, value = None,
              message = ''Expected '' @ showNat (length headers) @ '' columns, but found ''
                        @ showNat (length (rows ! i)) @ ''.''\<rparr>]"
    using assms(2) by (simp add: rowIssues_def)
  finally show ?thesis .
qed

theorem C7_row_length_issue_witness:
  "(0 :: nat) < length [[''1'', ''2'']] \<and> length ([[''1'', ''2'']] ! 0) \<noteq> length [''a'', ''b'', ''c''] \<and>
   filter (\<lambda>x. row x = 0 + 2) (validateCsvData exactOps [''a'', ''b'', ''c''] [[''1'', ''2'']] [])
   = [\<lparr>kind = INCONSISTENT_ROW_LENGTH, column = None, row = 2, value = None,
        message = ''Expected 3 columns, but found 2.''\<rparr>]"
  using C7_row_length_issue [where i = 0 and rows = "[[''1'', ''2'']]" and headers = "[''a'', ''b'', ''c'']"
      and num = exactOps and columnInfo = "[]"]
  by (simp add: digitChar_def)

section \<open>Properties of the statistics engine\<close>

lemma mset_insertBy: "mset (insertBy lt x ys) = add_mset x (mset ys)"
  by (induction ys) simp_all

lemma mset_foldl_insertBy:
  "mset (foldl (\<lambda>acc x. insertBy lt x acc) acc xs) = mset acc + mset xs"
  by (induction xs arbitrary: acc) (simp_all add: mset_insertBy)

lemma mset_sortBy: "mset (sortBy lt xs) = mset xs"
  by (simp add: sortBy_def mset_foldl_insertBy)

lemma set_sortBy: "set (sortBy lt xs) = set xs"
  using mset_sortBy [of lt xs] by (metis set_mset_mset)

lemma length_sortBy: "length (sortBy lt xs) = length xs"
  using mset_sortBy [of lt xs] by (metis size_mset)

lemma consistentOn_irrefl: "consistentOn lt D \<Longrightarrow> a \<in> D \<Longrightarrow> \<not> lt a a"
  unfolding consistentOn_def by blast

lemma consistentOn_asym: "consistentOn lt D \<Longrightarrow> a \<in> D \<Longrightarrow> b \<in> D \<Longrightarrow> lt a b \<Longrightarrow> \<not> lt b a"
  unfolding consistentOn_def by blast

lemma consistentOn_trans:
  "consistentOn lt D \<Longrightarrow> a \<in> D \<Longrightarrow> b \<in> D \<Longrightarrow> c \<in> D \<Longrightarrow> \<not> lt b a \<Longrightarrow> \<not> lt c b \<Longrightarrow> \<not> lt c a"
  unfolding consistentOn_def by blast

lemma set_insertBy: "set (insertBy lt x ys) = insert x (set ys)"
  by (induction ys) auto

lemma ascending_insertBy:
  assumes c: "consistentOn lt D" and x: "x \<in> D" and ys: "set ys \<subseteq> D"
    and s: "sorted_wrt (\<lambda>a b. \<not> lt b a) ys"
  shows "sorted_wrt (\<lambda>a b. \<not> lt b a) (insertBy lt x ys)"
  using ys s
proof (induction ys)
  case Nil
  then show ?case by simp
next
  case (Cons y ys)
  have yD: "y \<in> D" and ysD: "set ys \<subseteq> D"
    using Cons.prems(1) by simp_all
  show ?case
  proof (cases "lt x y")
    case True
    then have n: "\<not> lt y x"
      using c x yD by (rule consistentOn_asym [rotated 3])
    have "\<not> lt z x" if "z \<in> set ys" for z
    proof -
      have "\<not> lt z y" using Cons.prems(2) that by simp
      moreover have "z \<in> D" using ysD that by blast
      ultimately show ?thesis
        using n consistentOn_trans [OF c x yD, of z] by simp
    qed
    with True n Cons.prems(2) show ?thesis
      by simp
  next
    case False
    have i: "sorted_wrt (\<lambda>a b. \<not> lt b a) (insertBy lt x ys)"
      using Cons.IH ysD Cons.prems(2) by simp
    with False i Cons.prems(2) show ?thesis
      by (simp add: set_insertBy)
  qed
qed

lemma ascending_foldl_insertBy:
  assumes c: "consistentOn lt D"
  shows "set xs \<subseteq> D \<Longrightarrow> set acc \<subseteq> D \<Longrightarrow> sorted_wrt (\<lambda>a b. \<not> lt b a) acc \<Longrightarrow>
         sorted_wrt (\<lambda>a b. \<not> lt b a) (foldl (\<lambda>acc x. insertBy lt x acc) acc xs)"
proof (induction xs arbitrary: acc)
  case Nil
  then show ?case by simp
next
  case (Cons x xs)
  have "set (insertBy lt x acc) \<subseteq> D"
    using Cons.prems by (simp add: set_insertBy)
  moreover have "sorted_wrt (\<lambda>a b. \<not> lt b a) (insertBy lt x acc)"
    using c Cons.prems by (intro ascending_insertBy [where D = D]) simp_all
  ultimately show ?case
    using Cons.prems(1) by (simp add: Cons.IH)
qed

lemma ascending_sortBy:
  "consistentOn lt (set xs) \<Longrightarrow> sorted_wrt (\<lambda>a b. \<not> lt b a) (sortBy lt xs)"
  unfolding sortBy_def by (rule ascending_foldl_insertBy [where D = "set xs"]) simp_all

lemma ascending_first:
  assumes c: "consistentOn lt (set s)" and s: "sorted_wrt (\<lambda>a b. \<not> lt b a) s" and n: "s \<noteq> []" and x: "x \<in> set s"
  shows "\<not> lt x (s ! 0)"
proof -
  obtain y ys where e: "s = y # ys" using n by (cases s) auto
  have "\<not> lt y y" using c by (rule consistentOn_irrefl) (simp add: e)
  with s x show ?thesis unfolding e by auto
qed

lemma ascending_last:
  assumes c: "consistentOn lt (set s)" and s: "sorted_wrt (\<lambda>a b. \<not> lt b a) s" and n: "s \<noteq> []" and x: "x \<in> set s"
  shows "\<not> lt (s ! (length s - 1)) x"
proof -
  obtain i where i: "i < length s" "x = s ! i"
    using x by (auto simp add: in_set_conv_nth)
  have irr: "\<not> lt x x" using c x by (rule consistentOn_irrefl)
  show ?thesis
  proof (cases "i = length s - 1")
    case True
    with irr i show ?thesis by simp
  next
    case False
    with i have "i < length s - 1" "length s - 1 < length s" by simp_all
    then have "\<not> lt (s ! (length s - 1)) (s ! i)"
      using s by (rule sorted_wrt_nth_less [where P = "\<lambda>a b. \<not> lt b a" and xs = s, rotated])
    with i show ?thesis by simp
  qed
qed

lemma sortsBefore_exact: "sortsBefore exactOps (Some a) (Some b) = (a < b)"
  by (simp add: sortsBefore_def exactOps_def exactBinary_def exactNegative_def)

lemma consistentOn_exact: "consistentOn (sortsBefore exactOps) (set (map Some xs))"
  by (auto simp add: consistentOn_def sortsBefore_exact)

lemma sortBy_exact: "sortBy (sortsBefore exactOps) (map Some xs) = map Some (sort xs)"
proof -
  let ?s = "sortBy (sortsBefore exactOps) (map Some xs)"
  define zs where "zs = map the ?s"
  have "set ?s = set (map Some xs)"
    by (rule set_sortBy)
  then have "\<forall>a\<in>set ?s. Some (the a) = a"
    by auto
  then have e: "?s = map Some zs"
    unfolding zs_def by (simp add: map_idI)
  have "mset zs = image_mset the (mset ?s)"
    by (simp add: zs_def)
  also have "\<dots> = image_mset the (mset (map Some xs))"
    by (simp only: mset_sortBy)
  also have "\<dots> = mset xs"
    by (simp add: multiset.map_comp comp_def)
  finally have m: "mset zs = mset xs" .
  have "sorted_wrt (\<lambda>a b. \<not> sortsBefore exactOps b a) (map Some zs)"
    unfolding e [symmetric] using consistentOn_exact by (rule ascending_sortBy)
  then have "sorted_wrt (\<lambda>a b. \<not> b < a) zs"
    by (simp add: sorted_wrt_map sortsBefore_exact)
  then have "sorted zs"
    by (simp add: not_less)
  with m have "sort xs = zs"
    by (rule properties_for_sort)
  with e show ?thesis
    by simp
qed

lemma foldl_exactAdd: "foldl (numAdd exactOps) (Some a) (map Some xs) = Some (a + sum_list xs)"
  by (induction xs arbitrary: a) (simp_all add: exactOps_def exactBinary_def)

lemma reduceSum_exact: "xs \<noteq> [] \<Longrightarrow> reduceSum exactOps (map Some xs) = Some (sum_list xs)"
  by (cases xs) (simp_all add: reduceSum_def foldl_exactAdd)

lemma deviations_exact:
  "map (\<lambda>x. numSquare exactOps (numSub exactOps x (Some m))) (map Some xs) = map Some (map (\<lambda>x. (x - m) ^ 2) xs)"
  by (simp add: exactOps_def exactBinary_def)

lemma exactOps_simps:
  "numOfNat exactOps n = Some (real n)"
  "b \<noteq> 0 \<Longrightarrow> numDiv exactOps (Some a) (Some b) = Some (a / b)"
  "numAdd exactOps (Some a) (Some b) = Some (a + b)"
  "0 \<le> a \<Longrightarrow> numSqrt exactOps (Some a) = Some (sqrt a)"
  "numToFixed2 exactOps (Some a) = Some (roundFixed2 a)"
  by (simp_all add: exactOps_def exactBinary_def exactDiv_def exactSqrt_def)

lemma sorted_first_Min:
  fixes xs :: "real list"
  assumes "sorted xs" and "xs \<noteq> []"
  shows "xs ! 0 = Min (set xs)"
proof -
  from assms obtain y ys where xs: "xs = y # ys" by (cases xs) auto
  with assms(1) have "\<forall>z\<in>set xs. y \<le> z" by auto
  then have "Min (set xs) = y" using xs by (intro Min_eqI) auto
  with xs show ?thesis by simp
qed

lemma sorted_last_Max:
  fixes xs :: "real list"
  assumes "sorted xs" and "xs \<noteq> []"
  shows "xs ! (length xs - 1) = Max (set xs)"
proof -
  have "\<forall>z\<in>set xs. z \<le> xs ! (length xs - 1)"
  proof
    fix z assume "z \<in> set xs"
    then obtain i where "i < length xs" "z = xs ! i" by (auto simp add: in_set_conv_nth)
    with assms(1) show "z \<le> xs ! (length xs - 1)"
      by (auto intro: sorted_nth_mono)
  qed
  moreover have "xs ! (length xs - 1) \<in> set xs" using assms(2) by simp
  ultimately have "Max (set xs) = xs ! (length xs - 1)" by (intro Max_eqI) auto
  then show ?thesis by simp
qed

lemma getNumericStats_exact:
  assumes "xs \<noteq> []"
  shows "getNumericStats exactOps (map Some xs) =
           \<lparr>mean = Some (roundFixed2 (sum_list xs / real (length xs))),
            median = Some (roundFixed2
                       (if even (length xs)
                        then (sort xs ! (length xs div 2 - 1) + sort xs ! (length xs div 2)) / 2
                        else sort xs ! (length xs div 2))),
            stdDev = Some (roundFixed2
                       (sqrt ((\<Sum>x\<leftarrow>xs. (x - sum_list xs / real (length xs)) ^ 2) / real (length xs)))),
            minv = Some (Min (set xs)),
            maxv = Some (Max (set xs))\<rparr>"
proof -
  let ?n = "length xs" and ?mu = "sum_list xs / real (length xs)"
  have n: "0 < ?n"
    using assms by simp
  have ne: "sort xs \<noteq> []"
    using assms by (metis length_sort length_0_conv)
  have i: "?n div 2 < length (sort xs)" "?n div 2 - 1 < length (sort xs)" "0 < length (sort xs)"
    "?n - 1 < length (sort xs)"
    using n by (simp_all add: less_imp_diff_less)
  have mn: "sort xs ! 0 = Min (set xs)"
    using sorted_first_Min [of "sort xs"] ne by simp
  have mx: "sort xs ! (?n - 1) = Max (set xs)"
    using sorted_last_Max [of "sort xs"] ne by simp
  have nn: "0 \<le> (\<Sum>x\<leftarrow>xs. (x - ?mu) ^ 2) / real ?n"
    by (intro divide_nonneg_nonneg sum_list_nonneg) auto
  show ?thesis
    using assms i nn mn mx
    by (simp add: getNumericStats_def Let_def sortBy_exact foldl_exactAdd deviations_exact reduceSum_exact
        exactOps_simps even_iff_mod_2_eq_zero del: map_map)
qed

lemma roundFixed2_two_decimals:
  assumes "\<bar>x\<bar> < 10 ^ 21"
  shows "(\<exists>n :: int. roundFixed2 x = of_int n / 100) \<and> \<bar>roundFixed2 x - x\<bar> \<le> 1 / 200"
proof -
  define f where "f = \<lfloor>\<bar>x\<bar> * 100 + 1 / 2\<rfloor>"
  have tf: "roundFixed2 x = sgn x * (of_int f / 100)"
    using assms by (simp add: roundFixed2_def f_def)
  have "roundFixed2 x = of_int (sgn (if x < 0 then -1 else if x = 0 then 0 else 1) * f) / 100"
    unfolding tf by (auto simp add: sgn_real_def)
  then have a: "\<exists>n :: int. roundFixed2 x = of_int n / 100" by blast
  have lo: "of_int f \<le> \<bar>x\<bar> * 100 + 1 / 2" unfolding f_def by (rule of_int_floor_le)
  have hi: "\<bar>x\<bar> * 100 + 1 / 2 < of_int f + 1" unfolding f_def by linarith
  have "\<bar>of_int f / 100 - \<bar>x\<bar>\<bar> \<le> 1 / 200" using lo hi by linarith
  moreover have "\<bar>roundFixed2 x - x\<bar> = \<bar>of_int f / 100 - \<bar>x\<bar>\<bar>" if "x \<noteq> 0"
    unfolding tf using that by (auto simp add: sgn_real_def abs_real_def)
  moreover have "roundFixed2 0 = 0" by (simp add: roundFixed2_def)
  ultimately have "\<bar>roundFixed2 x - x\<bar> \<le> 1 / 200" by (cases "x = 0") auto
  with a show ?thesis by simp
qed

lemma roundFixed2_sqrt_sample: "roundFixed2 (sqrt (5 / 4)) = 112 / 100"
proof -
  have a: "sqrt (5 / 4) * 100 + 1 / 2 < 113"
  proof -
    have "sqrt (5 / 4) < sqrt ((1125 / 1000)\<^sup>2)" by (subst real_sqrt_less_iff) (simp add: power2_eq_square)
    then have "sqrt (5/4) < 1125 / 1000" by simp
    then show ?thesis by simp
  qed
  have b: "112 \<le> sqrt (5 / 4) * 100 + 1 / 2"
  proof -
    have "sqrt ((1115 / 1000)\<^sup>2) \<le> sqrt (5 / 4)" by (subst real_sqrt_le_iff) (simp add: power2_eq_square)
    then have "1115 / 1000 \<le> sqrt (5/4)" by simp
    then show ?thesis by simp
  qed
  have "\<lfloor>sqrt (5 / 4) * 100 + 1 / 2\<rfloor> = 112" using a b by (simp add: floor_eq_iff)
  moreover have "sqrt (5/4) < 10 ^ 21" using a by simp
  moreover have "0 < sqrt (5/4)" by simp
  ultimately show ?thesis by (simp add: roundFixed2_def)
qed

text \<open>
  Claim C6 says that all five stored statistics are rounded to two decimal places. The
  code rounds the mean, the median and the standard deviation; the minimum and the
  maximum are stored as the first and last element of the sorted data, unrounded. For
  the one value 1.234 both are 1.234, which rounds to 1.23. No arithmetic takes part in
  the two stored values, so the evaluation is the same in the doubles of the code.
\<close>

theorem C6_min_max_unrounded_counterexample:
  "minv (getNumericStats exactOps [Some (1234 / 1000)]) = Some (1234 / 1000)
   \<and> numToFixed2 exactOps (Some (1234 / 1000)) = Some (123 / 100)
   \<and> maxv (getNumericStats exactOps [Some (1234 / 1000)]) = Some (1234 / 1000)"
  by (simp add: getNumericStats_def Let_def sortBy_def exactOps_def roundFixed2_def)

text \<open>
  Claim C6, amended. For every non-empty list of numbers on which the comparator of the
  sort is consistent (every list of doubles without \<^verbatim>\<open>NaN\<close>), whatever the arithmetic:
  \<open>sorted\<close> is the data in ascending order; the stored mean is the sum, added from 0 in
  the order of the data, divided by the count; the stored median is the middle element
  of \<open>sorted\<close> for an odd count and the sum of the two middle elements divided by 2 for
  an even count; the stored standard deviation is the square root of the sum of the
  squared differences from the unrounded mean divided by the count (not by the count
  minus one); each of these three is passed through \<open>numToFixed2\<close>, the rounding to two
  decimals. The stored minimum and maximum are the first and last element of \<open>sorted\<close>,
  values of the data that no value sorts before, respectively after; they are not
  rounded. In the arithmetic of the code every one of these operations is the
  floating-point one and rounds, so the stored values are the floating-point
  evaluations of these formulas. In exact arithmetic on the reals, the instance
  \<open>exactOps\<close>, they are the arithmetic average, the median of \<open>sort\<close>, the population
  standard deviation, each rounded by \<open>roundFixed2\<close>, and the least and the greatest
  value; below \<open>10\<^sup>2\<^sup>1\<close> in magnitude \<open>roundFixed2\<close> yields a multiple of 0.01 at distance
  at most 0.005.
\<close>

theorem C6_numeric_stats:
  assumes "data \<noteq> []" and "consistentOn (sortsBefore num) (set data)"
  shows "(let sorted = sortBy (sortsBefore num) data;
              n = length data;
              avg = numDiv num (foldl (numAdd num) (numOfNat num 0) data) (numOfNat num n);
              st = getNumericStats num data
          in mset sorted = mset data
           \<and> sorted_wrt (\<lambda>a b. \<not> sortsBefore num b a) sorted
           \<and> mean st = numToFixed2 num avg
           \<and> median st = numToFixed2 num
                (if even n
                 then numDiv num (numAdd num (sorted ! (n div 2 - 1)) (sorted ! (n div 2))) (numOfNat num 2)
                 else sorted ! (n div 2))
           \<and> stdDev st = numToFixed2 num
                (numSqrt num
                   (numDiv num (reduceSum num (map (\<lambda>x. numSquare num (numSub num x avg)) data))
                      (numOfNat num n)))
           \<and> minv st = sorted ! 0 \<and> minv st \<in> set data \<and> (\<forall>x\<in>set data. \<not> sortsBefore num x (minv st))
           \<and> maxv st = sorted ! (n - 1) \<and> maxv st \<in> set data \<and> (\<forall>x\<in>set data. \<not> sortsBefore num (maxv st) x))
       \<and> (xs \<noteq> [] \<longrightarrow>
            getNumericStats exactOps (map Some xs) =
              \<lparr>mean = Some (roundFixed2 (sum_list xs / real (length xs))),
               median = Some (roundFixed2
                          (if even (length xs)
                           then (sort xs ! (length xs div 2 - 1) + sort xs ! (length xs div 2)) / 2
                           else sort xs ! (length xs div 2))),
               stdDev = Some (roundFixed2
                          (sqrt ((\<Sum>x\<leftarrow>xs. (x - sum_list xs / real (length xs)) ^ 2) / real (length xs)))),
               minv = Some (Min (set xs)),
               maxv = Some (Max (set xs))\<rparr>)
       \<and> (\<bar>y\<bar> < 10 ^ 21 \<longrightarrow> (\<exists>k :: int. roundFixed2 y = of_int k / 100) \<and> \<bar>roundFixed2 y - y\<bar> \<le> 1 / 200)"
proof -
  let ?s = "sortBy (sortsBefore num) data"
  let ?st = "getNumericStats num data"
  have m: "mset ?s = mset data"
    by (rule mset_sortBy)
  have se: "set ?s = set data"
    by (rule set_sortBy)
  have l: "length ?s = length data"
    by (rule length_sortBy)
  have ne: "?s \<noteq> []"
    using assms(1) l by auto
  have c: "consistentOn (sortsBefore num) (set ?s)"
    using assms(2) se by simp
  have a: "sorted_wrt (\<lambda>a b. \<not> sortsBefore num b a) ?s"
    using assms(2) by (rule ascending_sortBy)
  have mn: "minv ?st = ?s ! 0" and mx: "maxv ?st = ?s ! (length data - 1)"
    using assms(1) by (simp_all add: getNumericStats_def Let_def l)
  have "0 < length ?s" "length data - 1 < length ?s"
    using assms(1) l by simp_all
  then have "?s ! 0 \<in> set ?s" "?s ! (length data - 1) \<in> set ?s"
    by (simp_all only: nth_mem)
  then have mn_in: "?s ! 0 \<in> set data" and mx_in: "?s ! (length data - 1) \<in> set data"
    unfolding se by simp_all
  have mn_least: "\<forall>x\<in>set data. \<not> sortsBefore num x (?s ! 0)"
    using ascending_first [OF c a ne] se by simp
  have mx_greatest: "\<forall>x\<in>set data. \<not> sortsBefore num (?s ! (length data - 1)) x"
    using ascending_last [OF c a ne] se l by simp
  have f: "mean ?st = numToFixed2 num (numDiv num (foldl (numAdd num) (numOfNat num 0) data) (numOfNat num (length data)))"
    "median ?st = numToFixed2 num
                (if even (length data)
                 then numDiv num (numAdd num (?s ! (length data div 2 - 1)) (?s ! (length data div 2))) (numOfNat num 2)
                 else ?s ! (length data div 2))"
    "stdDev ?st = numToFixed2 num
                (numSqrt num
                   (numDiv num (reduceSum num (map (\<lambda>x. numSquare num (numSub num x
                       (numDiv num (foldl (numAdd num) (numOfNat num 0) data) (numOfNat num (length data))))) data))
                      (numOfNat num (length data))))"
    using assms(1) by (simp_all add: getNumericStats_def Let_def l even_iff_mod_2_eq_zero)
  have g: "xs \<noteq> [] \<longrightarrow>
            getNumericStats exactOps (map Some xs) =
              \<lparr>mean = Some (roundFixed2 (sum_list xs / real (length xs))),
               median = Some (roundFixed2
                          (if even (length xs)
                           then (sort xs ! (length xs div 2 - 1) + sort xs ! (length xs div 2)) / 2
                           else sort xs ! (length xs div 2))),
               stdDev = Some (roundFixed2
                          (sqrt ((\<Sum>x\<leftarrow>xs. (x - sum_list xs / real (length xs)) ^ 2) / real (length xs)))),
               minv = Some (Min (set xs)),
               maxv = Some (Max (set xs))\<rparr>"
    using getNumericStats_exact by blast
  have r: "\<bar>y\<bar> < 10 ^ 21 \<longrightarrow> (\<exists>k :: int. roundFixed2 y = of_int k / 100) \<and> \<bar>roundFixed2 y - y\<bar> \<le> 1 / 200"
    using roundFixed2_two_decimals by blast
  show ?thesis
    unfolding Let_def mn mx
    using m a f mn_in mx_in mn_least mx_greatest g r by blast
qed

theorem C6_numeric_stats_witness:
  "map Some [3, 1, 4, 2] \<noteq> ([] :: real option list)
   \<and> consistentOn (sortsBefore exactOps) (set (map Some [3, 1, 4, 2]))
   \<and> sortBy (sortsBefore exactOps) (map Some [3, 1, 4, 2]) = map Some [1, 2, 3, 4]
   \<and> getNumericStats exactOps (map Some [3, 1, 4, 2]) =
        \<lparr>mean = Some (5 / 2), median = Some (5 / 2), stdDev = Some (112 / 100), minv = Some 1, maxv = Some 4\<rparr>"
proof -
  have h: "map Some [3, 1, 4, 2] \<noteq> ([] :: real option list)"
    by simp
  have s: "sortBy (sortsBefore exactOps) (map Some [3, 1, 4, 2]) = map Some [1, 2, 3, 4]"
    by (simp add: sortBy_def sortsBefore_exact)
  have v: "[3, 1, 4, 2] \<noteq> ([] :: real list)"
    by simp
  from C6_numeric_stats [where num = exactOps and data = "map Some [3, 1, 4, 2]" and xs = "[3, 1, 4, 2]" and y = 0,
      OF h consistentOn_exact]
  have "getNumericStats exactOps (map Some [3, 1, 4, 2]) =
        \<lparr>mean = Some (5 / 2), median = Some (5 / 2), stdDev = Some (112 / 100), minv = Some 1, maxv = Some 4\<rparr>"
    using roundFixed2_sqrt_sample by (simp add: roundFixed2_def power2_eq_square)
  with h s consistentOn_exact [of "[3, 1, 4, 2]"] show ?thesis
    by simp
qed

section \<open>Properties of the type inferencer\<close>

lemma inferDataType_range: "inferDataType num v \<in> {''Numeric'', ''Boolean'', ''String''}"
  by (simp add: inferDataType_def)

lemma set_setAdd: "set (setAdd x xs) = insert x (set xs)"
  by (auto simp add: setAdd_def)


lemma columnTypes_cellStep:
  "set (columnTypes (cellStep num r g (i, x)) h) =
     set (columnTypes g h) \<union>
     (if x \<noteq> [] \<and> x = h \<and> i < length r \<and> trim (r ! i) \<noteq> [] then {inferDataType num (r ! i)} else {})"
  by (simp add: cellStep_def cellAt_def set_setAdd)


lemma columnTypes_cells:
  "h \<noteq> [] \<Longrightarrow>
   set (columnTypes (foldl (cellStep num r) g (enumerate n hs)) h) =
     set (columnTypes g h) \<union> typesIn num (zip hs (drop n r)) h"
proof (induction hs arbitrary: g n)
  case Nil
  then show ?case by (simp add: typesIn_def)
next
  case (Cons x hs)
  show ?case
  proof (cases "n < length r")
    case True
    then have d: "drop n r = r ! n # drop (Suc n) r"
      by (simp add: Cons_nth_drop_Suc)
    show ?thesis
      using Cons.prems True
      by (auto simp add: Cons.IH columnTypes_cellStep d typesIn_def)
  next
    case False
    then show ?thesis
      using Cons.prems
      by (simp add: Cons.IH columnTypes_cellStep typesIn_def)
  qed
qed


lemma presentTypes_Nil: "presentTypes num headers [] h = {}"
  by (simp add: presentTypes_def cellsUnder_def)

lemma presentTypes_Cons:
  "presentTypes num headers (r # rows) h = typesIn num (zip headers r) h \<union> presentTypes num headers rows h"
  by (simp add: presentTypes_def cellsUnder_def typesIn_def)

lemma columnTypes_rows:
  "h \<noteq> [] \<Longrightarrow>
   set (columnTypes (foldl (rowStep num headers) g rows) h) =
     set (columnTypes g h) \<union> presentTypes num headers rows h"
proof (induction rows arbitrary: g)
  case Nil
  then show ?case by (simp add: presentTypes_Nil)
next
  case (Cons r rows)
  have "set (columnTypes (rowStep num headers g r) h) = set (columnTypes g h) \<union> typesIn num (zip headers r) h"
    using Cons.prems columnTypes_cells [of h num r g 0 headers] by (simp add: rowStep_def)
  then show ?case
    using Cons.prems by (auto simp add: Cons.IH presentTypes_Cons)
qed


lemma columnTypes_gather:
  "h \<noteq> [] \<Longrightarrow> set (columnTypes (gather num headers rows) h) = presentTypes num headers rows h"
  by (simp add: gather_def columnTypes_rows)


lemma presentTypes_range: "presentTypes num headers rows h \<subseteq> {''Numeric'', ''Boolean'', ''String''}"
  using inferDataType_range by (auto simp add: presentTypes_def)


lemma analyzeColumns0_member:
  assumes "c \<in> set (analyzeColumns0 num csvText)"
  shows "name0 c \<noteq> [] \<and>
         type0 c = resolveType (columnTypes (gather num (parseLine (hd (csvLines csvText)))
                     (map parseLine (take 50 (tl (csvLines csvText))))) (name0 c))"
  using assms by (auto simp add: analyzeColumns0_def Let_def split: if_splits)

lemma analyzeColumns0_sample:
  "analyzeColumns0 exactOps (''a,b'' @ [NL] @ ''1,x'' @ [NL] @ ''25,'') =
     [\<lparr>name0 = ''a'', type0 = ''Numeric'', hasMissingValues0 = False\<rparr>,
      \<lparr>name0 = ''b'', type0 = ''String'', hasMissingValues0 = True\<rparr>]"
  by code_simp









lemma resolveType_Empty:
  assumes "set ts \<subseteq> {''Numeric'', ''Boolean'', ''String''}"
  shows "(resolveType ts = ''Empty'') = (ts = [])"
proof (cases ts)
  case Nil
  then show ?thesis by (simp add: resolveType_def)
next
  case (Cons t ts')
  then show ?thesis using assms by (auto simp add: resolveType_def)
qed

lemma analyzeColumns0_Empty:
  assumes "c \<in> set (analyzeColumns0 num csvText)"
  shows "(type0 c = ''Empty'') =
         (presentTypes num (parseLine (hd (csvLines csvText)))
            (map parseLine (take 50 (tl (csvLines csvText)))) (name0 c) = {})"
proof -
  let ?g = "gather num (parseLine (hd (csvLines csvText))) (map parseLine (take 50 (tl (csvLines csvText))))"
  from analyzeColumns0_member [OF assms]
  have n: "name0 c \<noteq> []" and t: "type0 c = resolveType (columnTypes ?g (name0 c))" by simp_all
  have s: "set (columnTypes ?g (name0 c)) = presentTypes num (parseLine (hd (csvLines csvText)))
                     (map parseLine (take 50 (tl (csvLines csvText)))) (name0 c)"
    using n by (rule columnTypes_gather)
  have "(resolveType (columnTypes ?g (name0 c)) = ''Empty'') = (columnTypes ?g (name0 c) = [])"
    by (rule resolveType_Empty) (simp add: s presentTypes_range)
  then show ?thesis
    unfolding t using s by (metis set_empty)
qed


section \<open>Stats payload and all-missing columns\<close>

lemma stats_profileColumn: "stats (profileColumn num rows header k) \<noteq> None"
  by (simp add: profileColumn_def Let_def)

lemma profileColumn_all_missing:
  "nonMissingValues rows k = [] \<Longrightarrow>
     type (profileColumn num rows header k) = ''String'' \<and>
     stats (profileColumn num rows header k) = Some (Categorical \<lparr>valueCounts = [], uniqueValues = 0\<rparr>)"
  by (simp add: profileColumn_def Let_def getCategoricalStats_def)

lemma profileColumn_numeric:
  "(\<exists>s. stats (profileColumn num rows header k) = Some (Numeric s)) =
   (type (profileColumn num rows header k) = ''Numeric'')"
  by (simp add: profileColumn_def Let_def)

lemma profileColumn_numeric_nonempty:
  "type (profileColumn num rows header k) = ''Numeric'' \<Longrightarrow> nonMissingValues rows k \<noteq> []"
  by (auto simp add: profileColumn_def Let_def split: if_splits)

lemma csvLines_blank_cell: "csvLines (''a,b'' @ [NL] @ ''1,'') = [''a,b'', ''1,'']"
  by (simp add: csvLines_def trim_def trimStart_def trimEnd_def isSpace_def NL_def)

lemma parseLine_blank_cell: "parseLine ''1,'' = [''1'', []]"
  by (simp add: parseLine_def cleanCell_def removeQuotes_def trim_def trimStart_def trimEnd_def
      isSpace_def DQ_def)

lemma trim_Nil: "trim [] = []"
  by (simp add: trim_def trimStart_def trimEnd_def)

text \<open>
  Claim C4 says that a column whose cells are all missing resolves to \<open>Empty\<close> and has
  no Stats payload, and that Stats is present if and only if the column has a
  non-missing value. In the profiling pass of \<^verbatim>\<open>App.tsx\<close>, column \<open>b\<close> of the text with
  header \<open>a,b\<close> and data row \<open>1,\<close> has no non-missing value, type \<open>String\<close> and a
  categorical payload without values.
\<close>

theorem C4_all_missing_counterexample:
  "nonMissingValues (map parseLine (tl (csvLines (''a,b'' @ [NL] @ ''1,'')))) 1 = []
   \<and> type (analyzeColumns exactOps (''a,b'' @ [NL] @ ''1,'') ! 1) = ''String''
   \<and> stats (analyzeColumns exactOps (''a,b'' @ [NL] @ ''1,'') ! 1)
       = Some (Categorical \<lparr>valueCounts = [], uniqueValues = 0\<rparr>)"
proof -
  have n: "nonMissingValues [[''1'', []]] 1 = []"
    by (simp add: nonMissingValues_def columnValues_def cellAt_def trim_Nil)
  show ?thesis
    unfolding analyzeColumns_def csvLines_blank_cell
    using profileColumn_all_missing [OF n, of exactOps "''b''"] n
    by (simp add: parseLine_samples parseLine_blank_cell profileColumns_nth)
qed

text \<open>
  Claim C4, amended: in the profiling pass of \<^verbatim>\<open>App.tsx\<close> every column profile carries
  a Stats payload; a column whose cells are all missing has type \<open>String\<close> and the
  categorical payload with no value counts and \<open>uniqueValues = 0\<close>; the payload is the
  numeric one exactly when the type is \<open>Numeric\<close>, which needs a non-missing value. In
  the earlier pass of \<^verbatim>\<open>part_007\<close>, whose profiles have no Stats field, a column
  resolves to \<open>Empty\<close> exactly when no non-blank cell stands under its header name in
  the sampled rows.
\<close>

theorem C4_stats_presence:
  "(k < length headers \<longrightarrow>
      stats (profileColumns num headers rows ! k) \<noteq> None
      \<and> (nonMissingValues rows k = [] \<longrightarrow>
           type (profileColumns num headers rows ! k) = ''String''
           \<and> stats (profileColumns num headers rows ! k)
               = Some (Categorical \<lparr>valueCounts = [], uniqueValues = 0\<rparr>))
      \<and> ((\<exists>s. stats (profileColumns num headers rows ! k) = Some (Numeric s))
           = (type (profileColumns num headers rows ! k) = ''Numeric''))
      \<and> (type (profileColumns num headers rows ! k) = ''Numeric'' \<longrightarrow> nonMissingValues rows k \<noteq> []))
   \<and> (c \<in> set (analyzeColumns0 num csvText) \<longrightarrow>
        (type0 c = ''Empty'') =
        (presentTypes num (parseLine (hd (csvLines csvText)))
           (map parseLine (take 50 (tl (csvLines csvText)))) (name0 c) = {}))"
  using profileColumn_all_missing [of rows k num "headers ! k"]
    profileColumn_numeric_nonempty [of num rows "headers ! k" k]
    analyzeColumns0_Empty [of c num csvText]
  by (simp add: profileColumns_nth stats_profileColumn profileColumn_numeric)


theorem C4_stats_presence_witness:
  "(1 :: nat) < length [''a'', ''b'']
   \<and> nonMissingValues [[''1'', []]] 1 = []
   \<and> type (profileColumns exactOps [''a'', ''b''] [[''1'', []]] ! 1) = ''String''
   \<and> stats (profileColumns exactOps [''a'', ''b''] [[''1'', []]] ! 1)
       = Some (Categorical \<lparr>valueCounts = [], uniqueValues = 0\<rparr>)
   \<and> \<lparr>name0 = ''b'', type0 = ''String'', hasMissingValues0 = True\<rparr>
       \<in> set (analyzeColumns0 exactOps (''a,b'' @ [NL] @ ''1,x'' @ [NL] @ ''25,''))
   \<and> presentTypes exactOps
         (parseLine (hd (csvLines (''a,b'' @ [NL] @ ''1,x'' @ [NL] @ ''25,''))))
         (map parseLine (take 50 (tl (csvLines (''a,b'' @ [NL] @ ''1,x'' @ [NL] @ ''25,''))))) ''b'' \<noteq> {}"
proof -
  have n: "nonMissingValues [[''1'', []]] 1 = []"
    by (simp add: nonMissingValues_def columnValues_def cellAt_def trim_Nil)
  have m: "\<lparr>name0 = ''b'', type0 = ''String'', hasMissingValues0 = True\<rparr>
       \<in> set (analyzeColumns0 exactOps (''a,b'' @ [NL] @ ''1,x'' @ [NL] @ ''25,''))"
    unfolding analyzeColumns0_sample by simp
  from C4_stats_presence [where k = 1 and headers = "[''a'', ''b'']" and rows = "[[''1'', []]]" and num = exactOps
      and c = "\<lparr>name0 = ''b'', type0 = ''String'', hasMissingValues0 = True\<rparr>"
      and csvText = "''a,b'' @ [NL] @ ''1,x'' @ [NL] @ ''25,''"] n m
  show ?thesis
    by simp
qed


section \<open>The patterns as first-occurrence searches\<close>

text \<open>
  \<open>regexMatch\<close> returns a decomposition of the text around a fenced block; among all
  such decompositions it has the leftmost opening fence and, for that fence, the
  shortest group; and it finds a match whenever the text has one. This is how the
  backtracking matcher reads a pattern with one lazy group.
\<close>

lemma startsWith_append: "startsWith p s \<Longrightarrow> s = p @ drop (length p) s"
  by (induction p s rule: startsWith.induct) simp_all

lemma startsWith_self: "startsWith p (p @ r)"
  by (induction p) simp_all

lemma findSub_sound: "findSub pat s = Some (a, b) \<Longrightarrow> s = a @ pat @ b"
proof (induction s arbitrary: a)
  case Nil
  then show ?case by (simp split: if_splits)
next
  case (Cons c cs)
  show ?case
  proof (cases "startsWith pat (c # cs)")
    case True
    with Cons.prems startsWith_append [OF True] show ?thesis by simp
  next
    case False
    with Cons.prems obtain a' where "findSub pat cs = Some (a', b)" "a = c # a'"
      by (auto split: option.splits)
    with Cons.IH show ?thesis by simp
  qed
qed

lemma findSub_here: "findSub pat (pat @ r) = Some ([], r)"
proof (cases "pat @ r")
  case Nil
  then show ?thesis by simp
next
  case (Cons a l)
  have "startsWith pat (a # l)"
    using startsWith_self [of pat r] Cons by simp
  moreover have "drop (length pat) (a # l) = r"
    using Cons by (metis append_eq_conv_conj)
  ultimately show ?thesis
    using Cons by simp
qed

lemma findSub_complete: "findSub pat (a @ pat @ b) \<noteq> None"
proof (induction a)
  case Nil
  then show ?case by (simp add: findSub_here del: findSub.simps)
next
  case (Cons c a)
  then show ?case by (auto split: option.splits)
qed

lemma findSub_leftmost:
  "findSub pat s = Some (a, b) \<Longrightarrow> s = a' @ pat @ b' \<Longrightarrow> length a \<le> length a'"
proof (induction s arbitrary: a a')
  case Nil
  then show ?case by (simp split: if_splits)
next
  case (Cons c cs)
  show ?case
  proof (cases "startsWith pat (c # cs)")
    case True
    with Cons.prems(1) show ?thesis by simp
  next
    case False
    with Cons.prems(1) obtain a0 where a0: "findSub pat cs = Some (a0, b)" "a = c # a0"
      by (auto split: option.splits)
    have "a' \<noteq> []"
      using False Cons.prems(2) startsWith_self [of pat b'] by auto
    then obtain a1 where a1: "a' = c # a1" "cs = a1 @ pat @ b'"
      using Cons.prems(2) by (cases a') auto
    from Cons.IH [OF a0(1) a1(2)] a0(2) a1(1) show ?thesis by simp
  qed
qed

lemma regexMatch_sound:
  "regexMatch tag txt = Some (pre, body, post) \<Longrightarrow> txt = pre @ fenceOpen tag @ body @ fenceClose @ post"
  by (auto simp add: regexMatch_def split: option.splits dest!: findSub_sound)

lemma regexMatch_leftmost_lazy:
  assumes m: "regexMatch tag txt = Some (pre, body, post)"
    and d: "txt = x @ fenceOpen tag @ b @ fenceClose @ y"
  shows "length pre \<le> length x \<and> (length pre = length x \<longrightarrow> length body \<le> length b)"
proof -
  from m obtain rest where o: "findSub (fenceOpen tag) txt = Some (pre, rest)"
    and c: "findSub fenceClose rest = Some (body, post)"
    by (auto simp add: regexMatch_def split: option.splits)
  have l: "length pre \<le> length x"
    using o d by (rule findSub_leftmost)
  have "length body \<le> length b" if e: "length pre = length x"
  proof -
    have t: "txt = pre @ fenceOpen tag @ rest"
      using o by (rule findSub_sound)
    with d e have "pre = x" "rest = b @ fenceClose @ y"
      by auto
    with c show ?thesis
      by (auto dest: findSub_leftmost [where a' = b and b' = y])
  qed
  with l show ?thesis by simp
qed

lemma regexMatch_complete:
  assumes d: "txt = x @ fenceOpen tag @ b @ fenceClose @ y"
  shows "regexMatch tag txt \<noteq> None"
proof -
  let ?o = "fenceOpen tag"
  have "findSub ?o txt \<noteq> None"
    unfolding d by (rule findSub_complete)
  then obtain pre rest where o: "findSub ?o txt = Some (pre, rest)"
    by auto
  have l: "length pre \<le> length x"
    using o d by (rule findSub_leftmost)
  have t: "txt = pre @ ?o @ rest"
    using o by (rule findSub_sound)
  then have "rest = drop (length pre + length ?o) txt"
    by simp
  also have "\<dots> = drop (length pre + length ?o) (x @ ?o @ b) @ fenceClose @ y"
    unfolding d using l by simp
  finally have r: "rest = drop (length pre + length ?o) (x @ ?o @ b) @ fenceClose @ y" .
  have "findSub fenceClose rest \<noteq> None"
    unfolding r by (rule findSub_complete)
  then show ?thesis
    using o by (auto simp add: regexMatch_def)
qed

section \<open>Properties of the payload extractor\<close>

lemma extractPayloads_parse_failure:
  assumes "regexMatch ''json'' resp = Some (pre, body, post)" and "jsonParse body = None"
  shows "extractPayloads jsonParse resp =
           (case regexMatch ''csv'' resp of
              None \<Rightarrow> (None, resp, None)
            | Some (p, b, q) \<Rightarrow> if b \<noteq> [] then (Some (trim b), trim (p @ q), None) else (None, resp, None))"
  using assms by (simp add: extractPayloads_def Let_def regexRemove_def split: option.splits)


lemma handleSend_reply:
  assumes "\<not> isLoading st" and "trim txt \<noteq> []"
    and "service txt (case uploadedFile st of None \<Rightarrow> [] | Some f \<Rightarrow> columns f) (csvData st) = Some resp"
    and "handleSend num jsonParse service txt st = Inr st'"
  shows "last (messages st') =
           replyMessage (fst (snd (extractPayloads jsonParse resp))) (snd (snd (extractPayloads jsonParse resp)))"
  using assms
  by (auto simp add: handleSend_def processResponse_def applyDataset_def finishSend_def addMessage_def Let_def
      split: prod.splits option.splits sum.splits)

lemma badJson_matches:
  "regexMatch ''json'' badJsonResponse = Some (''Hi'' @ [NL], ''{bad'', [])"
  "regexMatch ''csv'' badJsonResponse = None"
  by code_simp+

lemma badJson_extract: "extractPayloads (\<lambda>s. None) badJsonResponse = (None, badJsonResponse, None)"
  by code_simp

lemma trim_q: "trim ''q'' = ''q''"
  by code_simp

lemma badJson_handleSend:
  "handleSend exactOps (\<lambda>s. None) (\<lambda>q cols d. Some badJsonResponse) ''q'' idleState
   = Inr \<lparr>messages = [\<lparr>sender = user, msgText = ''q'', chartData = None\<rparr>,
                      \<lparr>sender = ai, msgText = badJsonResponse, chartData = None\<rparr>],
          isLoading = False, uploadedFile = None, csvData = None\<rparr>"
  by (simp add: handleSend_def processResponse_def badJson_extract trim_q finishSend_def addMessage_def
      replyMessage_def idleState_def)

text \<open>
  Claim C2 says that a response whose json block fails to parse yields no chart and the
  surrounding text with the invalid block removed. The code removes the block only
  after \<^verbatim>\<open>JSON.parse\<close> has returned (line 315 follows line 314 inside the \<^verbatim>\<open>try\<close>), so
  on a parse failure the block stays: the response \<open>Hi\<close>, a line feed and a json block
  with the body \<open>{bad\<close> is shown to the user whole. What the residual text loses is the
  match of the csv pattern: in the response whose csv block ends with the fence that
  opens the json block, the csv match takes that fence with it and the rest of the json
  block is left; in the response whose csv fence opens right before the json block,
  the csv match is the whole text and nothing is left.
\<close>

theorem C2_invalid_json_counterexample:
  "regexMatch ''json'' badJsonResponse = Some (''Hi'' @ [NL], ''{bad'', [])
   \<and> extractPayloads (\<lambda>s. None) badJsonResponse = (None, badJsonResponse, None)
   \<and> handleSend exactOps (\<lambda>s. None) (\<lambda>q cols d. Some badJsonResponse) ''q'' idleState
      = Inr \<lparr>messages = [\<lparr>sender = user, msgText = ''q'', chartData = None\<rparr>,
                      \<lparr>sender = ai, msgText = badJsonResponse, chartData = None\<rparr>],
          isLoading = False, uploadedFile = None, csvData = None\<rparr>
   \<and> badJsonResponse \<noteq> ''Hi'' @ [NL] \<and> badJsonResponse \<noteq> ''Hi''
   \<and> regexMatch ''json'' overlapResponse = Some (''```csv'' @ [NL] @ ''a'' @ [NL], ''{bad'', [])
   \<and> regexMatch ''csv'' overlapResponse = Some ([], ''a'', ''json'' @ [NL] @ ''{bad'' @ [NL] @ ''```'')
   \<and> extractPayloads (\<lambda>s. None) overlapResponse = (Some ''a'', ''json'' @ [NL] @ ''{bad'' @ [NL] @ ''```'', None)
   \<and> regexMatch ''json'' nestedResponse = Some (''```csv'' @ [NL], ''{bad'', [])
   \<and> regexMatch ''csv'' nestedResponse = Some ([], ''```json'' @ [NL] @ ''{bad'', [])
   \<and> extractPayloads (\<lambda>s. None) nestedResponse = (Some (''```json'' @ [NL] @ ''{bad''), [], None)"
proof -
  have "regexMatch ''json'' overlapResponse = Some (''```csv'' @ [NL] @ ''a'' @ [NL], ''{bad'', [])"
    "regexMatch ''csv'' overlapResponse = Some ([], ''a'', ''json'' @ [NL] @ ''{bad'' @ [NL] @ ''```'')"
    "extractPayloads (\<lambda>s. None) overlapResponse = (Some ''a'', ''json'' @ [NL] @ ''{bad'' @ [NL] @ ''```'', None)"
    "regexMatch ''json'' nestedResponse = Some (''```csv'' @ [NL], ''{bad'', [])"
    "regexMatch ''csv'' nestedResponse = Some ([], ''```json'' @ [NL] @ ''{bad'', [])"
    "extractPayloads (\<lambda>s. None) nestedResponse = (Some (''```json'' @ [NL] @ ''{bad''), [], None)"
    by code_simp+
  then show ?thesis
    by (simp add: badJson_matches badJson_extract badJson_handleSend) (simp add: badJsonResponse_def)
qed

text \<open>
  Claim C2, amended: for every response text whose json block fails to parse, the result
  has no chart and the invalid block is not removed. The residual text is what the csv
  step left: the response text itself, not trimmed, when the csv pattern finds nothing
  or a block with an empty body, and otherwise the response text without the csv match,
  trimmed. Where the csv match does not overlap the json block, standing before it or
  after it, the invalid json block stays whole in the residual text, between the
  trimmed texts around it; where the two overlap, the part of the json block inside the
  csv match goes with it. The reply message of \<open>handleSend\<close> carries the residual text
  and no chart.
\<close>

theorem C2_invalid_json_block_stays:
  assumes "regexMatch ''json'' resp = Some (pre, body, post)" and "jsonParse body = None"
  shows "resp = pre @ fencedBlock ''json'' body @ post
       \<and> snd (snd (extractPayloads jsonParse resp)) = None
       \<and> fst (snd (extractPayloads jsonParse resp)) =
           (case regexMatch ''csv'' resp of
              None \<Rightarrow> resp
            | Some (p, b, q) \<Rightarrow> if b \<noteq> [] then trim (p @ q) else resp)
       \<and> (regexMatch ''csv'' resp = None \<or> regexMatch ''csv'' resp = Some (p, [], q)
          \<longrightarrow> fst (snd (extractPayloads jsonParse resp)) = pre @ fencedBlock ''json'' body @ post)
       \<and> (regexMatch ''csv'' resp = Some (p, b, q) \<and> b \<noteq> [] \<and> pre = p @ fencedBlock ''csv'' b @ mid
          \<longrightarrow> fst (snd (extractPayloads jsonParse resp))
                = trimStart (p @ mid) @ fencedBlock ''json'' body @ trimEnd post)
       \<and> (regexMatch ''csv'' resp = Some (p, b, q) \<and> b \<noteq> [] \<and> p = pre @ fencedBlock ''json'' body @ gap
          \<longrightarrow> fst (snd (extractPayloads jsonParse resp))
                = trimStart pre @ fencedBlock ''json'' body @ trimEnd (gap @ q))
       \<and> (\<not> isLoading st \<and> trim query \<noteq> []
            \<and> service query (case uploadedFile st of None \<Rightarrow> [] | Some f \<Rightarrow> columns f) (csvData st) = Some resp
            \<and> handleSend num jsonParse service query st = Inr st'
          \<longrightarrow> last (messages st') =
                \<lparr>sender = ai,
                 msgText = (case regexMatch ''csv'' resp of
                              None \<Rightarrow> resp
                            | Some (p, b, q) \<Rightarrow> if b \<noteq> [] then trim (p @ q) else resp),
                 chartData = None\<rparr>)"
proof -
  let ?J = "fencedBlock ''json'' body"
  let ?res = "fst (snd (extractPayloads jsonParse resp))"
  have e: "extractPayloads jsonParse resp =
           (case regexMatch ''csv'' resp of
              None \<Rightarrow> (None, resp, None)
            | Some (p, b, q) \<Rightarrow> if b \<noteq> [] then (Some (trim b), trim (p @ q), None) else (None, resp, None))"
    using assms by (rule extractPayloads_parse_failure)
  have d: "resp = pre @ ?J @ post"
    using regexMatch_sound [OF assms(1)] by (simp add: fencedBlock_def)
  have a: "snd (snd (extractPayloads jsonParse resp)) = None"
    unfolding e by (simp split: option.splits)
  have b: "?res =
           (case regexMatch ''csv'' resp of
              None \<Rightarrow> resp
            | Some (p, b, q) \<Rightarrow> if b \<noteq> [] then trim (p @ q) else resp)"
    unfolding e by (simp split: option.splits)
  have n: "?res = pre @ ?J @ post"
    if "regexMatch ''csv'' resp = None \<or> regexMatch ''csv'' resp = Some (p, [], q)"
    using that d unfolding b by auto
  have before: "?res = trimStart (p @ mid) @ ?J @ trimEnd post"
    if m: "regexMatch ''csv'' resp = Some (p, b, q)" and ne: "b \<noteq> []" and w: "pre = p @ fencedBlock ''csv'' b @ mid"
  proof -
    have "resp = p @ fencedBlock ''csv'' b @ q"
      using regexMatch_sound [OF m] by (simp add: fencedBlock_def)
    with d w have "q = mid @ ?J @ post"
      by simp
    then have "trim (p @ q) = trim ((p @ mid) @ ?J @ post)"
      by simp
    also have "\<dots> = trimStart (p @ mid) @ ?J @ trimEnd post"
      by (rule trim_block)
    finally show ?thesis
      unfolding b using m ne by simp
  qed
  have after: "?res = trimStart pre @ ?J @ trimEnd (gap @ q)"
    if m: "regexMatch ''csv'' resp = Some (p, b, q)" and ne: "b \<noteq> []" and w: "p = pre @ ?J @ gap"
  proof -
    have "trim (p @ q) = trim (pre @ ?J @ (gap @ q))"
      unfolding w by simp
    also have "\<dots> = trimStart pre @ ?J @ trimEnd (gap @ q)"
      by (rule trim_block)
    finally show ?thesis
      unfolding b using m ne by simp
  qed
  have c: "last (messages st') =
                \<lparr>sender = ai,
                 msgText = (case regexMatch ''csv'' resp of
                              None \<Rightarrow> resp
                            | Some (p, b, q) \<Rightarrow> if b \<noteq> [] then trim (p @ q) else resp),
                 chartData = None\<rparr>"
    if "\<not> isLoading st" "trim query \<noteq> []"
       "service query (case uploadedFile st of None \<Rightarrow> [] | Some f \<Rightarrow> columns f) (csvData st) = Some resp"
       "handleSend num jsonParse service query st = Inr st'"
    using handleSend_reply [OF that] unfolding a b by (simp add: replyMessage_def)
  from d a b n before after c show ?thesis
    by blast
qed

lemma csvThenBadJson_matches:
  "regexMatch ''json'' csvThenBadJson
     = Some ((''Hi'' @ [NL]) @ fencedBlock ''csv'' sampleCsvBody @ [NL], ''{bad'', '' bye'')"
  "regexMatch ''csv'' csvThenBadJson
     = Some (''Hi'' @ [NL], sampleCsvBody, [NL] @ fencedBlock ''json'' ''{bad'' @ '' bye'')"
  "sampleCsvBody \<noteq> []"
  "trimStart ((''Hi'' @ [NL]) @ [NL]) = ''Hi'' @ [NL, NL]"
  "trimEnd '' bye'' = '' bye''"
  by code_simp+

theorem C2_invalid_json_block_stays_witness:
  "regexMatch ''json'' badJsonResponse = Some (''Hi'' @ [NL], ''{bad'', [])
   \<and> (\<lambda>s. None) ''{bad'' = (None :: json option)
   \<and> \<not> isLoading idleState \<and> trim ''q'' \<noteq> []
   \<and> handleSend exactOps (\<lambda>s. None) (\<lambda>q cols d. Some badJsonResponse) ''q'' idleState
      = Inr \<lparr>messages = [\<lparr>sender = user, msgText = ''q'', chartData = None\<rparr>,
                      \<lparr>sender = ai, msgText = badJsonResponse, chartData = None\<rparr>],
          isLoading = False, uploadedFile = None, csvData = None\<rparr>
   \<and> fst (snd (extractPayloads (\<lambda>s. None) badJsonResponse)) = badJsonResponse
   \<and> snd (snd (extractPayloads (\<lambda>s. None) badJsonResponse)) = None
   \<and> regexMatch ''json'' csvThenBadJson
       = Some ((''Hi'' @ [NL]) @ fencedBlock ''csv'' sampleCsvBody @ [NL], ''{bad'', '' bye'')
   \<and> regexMatch ''csv'' csvThenBadJson
       = Some (''Hi'' @ [NL], sampleCsvBody, [NL] @ fencedBlock ''json'' ''{bad'' @ '' bye'')
   \<and> sampleCsvBody \<noteq> []
   \<and> fst (snd (extractPayloads (\<lambda>s. None) csvThenBadJson))
       = ''Hi'' @ [NL, NL] @ fencedBlock ''json'' ''{bad'' @ '' bye''
   \<and> snd (snd (extractPayloads (\<lambda>s. None) csvThenBadJson)) = None"
proof -
  have i: "\<not> isLoading idleState"
    by (simp add: idleState_def)
  note r1 = C2_invalid_json_block_stays [where resp = badJsonResponse and pre = "''Hi'' @ [NL]" and body = "''{bad''" and post = "[]"
      and jsonParse = "\<lambda>s. None" and st = idleState and num = exactOps and query = "''q''"
      and service = "\<lambda>q cols d. Some badJsonResponse"
      and st' = "\<lparr>messages = [\<lparr>sender = user, msgText = ''q'', chartData = None\<rparr>,
                      \<lparr>sender = ai, msgText = badJsonResponse, chartData = None\<rparr>],
          isLoading = False, uploadedFile = None, csvData = None\<rparr>", OF badJson_matches(1)]
  note r2 = C2_invalid_json_block_stays [where resp = csvThenBadJson and jsonParse = "\<lambda>s. None"
      and p = "''Hi'' @ [NL]" and b = sampleCsvBody and q = "[NL] @ fencedBlock ''json'' ''{bad'' @ '' bye''"
      and mid = "[NL]" and gap = "[]" and st = idleState and num = exactOps and query = "''q''"
      and service = "\<lambda>q cols d. Some badJsonResponse" and st' = idleState, OF csvThenBadJson_matches(1) refl]
  have h: "regexMatch ''csv'' csvThenBadJson
             = Some (''Hi'' @ [NL], sampleCsvBody, [NL] @ fencedBlock ''json'' ''{bad'' @ '' bye'')
           \<and> sampleCsvBody \<noteq> []
           \<and> (''Hi'' @ [NL]) @ fencedBlock ''csv'' sampleCsvBody @ [NL]
             = (''Hi'' @ [NL]) @ fencedBlock ''csv'' sampleCsvBody @ [NL]"
    using csvThenBadJson_matches(2,3) by blast
  have "fst (snd (extractPayloads (\<lambda>s. None) csvThenBadJson))
       = trimStart ((''Hi'' @ [NL]) @ [NL]) @ fencedBlock ''json'' ''{bad'' @ trimEnd '' bye''"
    using r2 [THEN conjunct2, THEN conjunct2, THEN conjunct2, THEN conjunct2, THEN conjunct1] h
    by (rule mp)
  then have a: "fst (snd (extractPayloads (\<lambda>s. None) csvThenBadJson))
       = ''Hi'' @ [NL, NL] @ fencedBlock ''json'' ''{bad'' @ '' bye''"
    unfolding csvThenBadJson_matches(4,5) by simp
  have b: "snd (snd (extractPayloads (\<lambda>s. None) csvThenBadJson)) = None"
    by (rule r2 [THEN conjunct2, THEN conjunct1])
  from r1 i a b csvThenBadJson_matches(1-3) show ?thesis
    by (simp add: badJson_matches badJson_handleSend trim_q)
qed


section \<open>Order of the two blocks\<close>

lemma findSub_skip_free:
  "c0 \<notin> set x \<Longrightarrow>
   findSub (c0 # pat') (x @ y) =
     (case findSub (c0 # pat') y of None \<Rightarrow> None | Some (a, b) \<Rightarrow> Some (x @ a, b))"
  by (induction x) (auto split: option.splits)

lemma findSub_first: "c0 \<notin> set x \<Longrightarrow> findSub (c0 # pat') (x @ (c0 # pat') @ r) = Some (x, r)"
  using findSub_here [of "c0 # pat'" r] by (simp add: findSub_skip_free del: findSub.simps)

lemma findSub_open_first: "BT \<notin> set x \<Longrightarrow> findSub (fenceOpen tag) (x @ fenceOpen tag @ r) = Some (x, r)"
  unfolding fenceOpen_def using findSub_first [of BT x "[BT, BT] @ tag @ [NL]" r] by simp

lemma not_startsWith_3BT: "BT \<notin> set b \<Longrightarrow> \<not> startsWith [BT, BT, BT] (b @ NL # r)"
  by (cases b) (simp_all add: BT_def NL_def)

lemma findSub_close_first: "BT \<notin> set b \<Longrightarrow> findSub fenceClose (b @ fenceClose @ y) = Some (b, y)"
proof (induction b)
  case Nil
  then show ?case by (simp add: fenceClose_def)
next
  case (Cons c b)
  then have "\<not> startsWith [BT, BT, BT] (b @ NL # BT # BT # BT # y)"
    by (intro not_startsWith_3BT) simp
  with Cons show ?case by (simp add: fenceClose_def)
qed

lemma regexMatch_first:
  "BT \<notin> set x \<Longrightarrow> BT \<notin> set b \<Longrightarrow> regexMatch tag (x @ fencedBlock tag b @ y) = Some (x, b, y)"
  by (simp add: regexMatch_def fencedBlock_def findSub_open_first findSub_close_first)


lemma startsWith_append_free:
  "startsWith w (m @ c # r) \<Longrightarrow> c \<notin> set w \<Longrightarrow> startsWith w m"
proof (induction m arbitrary: w)
  case Nil
  then show ?case by (cases w) auto
next
  case (Cons d m)
  then show ?case by (cases w) auto
qed

lemma findSub_after_fence:
  assumes m: "BT \<notin> set m" and n: "\<not> startsWith (c1 # q) m" and c: "BT \<notin> set (c1 # q)"
  shows "findSub (BT # BT # BT # c1 # q) (BT # BT # BT # m @ (BT # BT # BT # c1 # q) @ r)
         = Some (BT # BT # BT # m, r)"
proof -
  let ?P = "BT # BT # BT # c1 # q"
  have n0: "\<not> startsWith ?P (BT # BT # BT # m @ ?P @ r)"
    using n c startsWith_append_free [of "c1 # q" m BT "BT # BT # c1 # q @ r"] by auto
  have n1: "\<not> startsWith ?P (BT # BT # m @ ?P @ r)"
    using m c by (cases m) auto
  have n2: "\<not> startsWith ?P (BT # m @ ?P @ r)"
    using m c by (cases m) auto
  have f: "findSub ?P (m @ ?P @ r) = Some (m, r)"
    using m by (rule findSub_first)
  show ?thesis
    using n0 n1 n2 f by (simp del: startsWith.simps)
qed

lemma findSub_json_after_csv:
  assumes "BT \<notin> set b'" and "BT \<notin> set m" and "\<not> startsWith (''json'' @ [NL]) m"
  shows "findSub (fenceOpen ''json'') (fencedBlock ''csv'' b' @ m @ fenceOpen ''json'' @ r)
         = Some (fencedBlock ''csv'' b' @ m, r)"
proof -
  let ?P = "BT # BT # BT # CHR ''j'' # ''son'' @ [NL]"
  have c: "BT \<notin> set (CHR ''j'' # ''son'' @ [NL])"
    by (simp add: BT_def NL_def)
  have s1: "findSub ?P (BT # BT # BT # m @ ?P @ r) = Some (BT # BT # BT # m, r)"
    using assms(2,3) c by (intro findSub_after_fence) simp_all
  have s2: "findSub ?P (NL # BT # BT # BT # m @ ?P @ r) = Some (NL # BT # BT # BT # m, r)"
    using s1 by (simp add: BT_def NL_def)
  have s3: "findSub ?P (b' @ NL # BT # BT # BT # m @ ?P @ r) = Some (b' @ NL # BT # BT # BT # m, r)"
    using assms(1) s2 by (simp add: findSub_skip_free del: findSub.simps)
  have s4: "findSub ?P (BT # BT # BT # ''csv'' @ NL # b' @ NL # BT # BT # BT # m @ ?P @ r)
            = Some (BT # BT # BT # ''csv'' @ NL # b' @ NL # BT # BT # BT # m, r)"
    using s3 by (simp add: BT_def NL_def)
  show ?thesis
    using s4 by (simp add: fencedBlock_def fenceOpen_def fenceClose_def)
qed

lemma findSub_csv_after_json:
  assumes "BT \<notin> set b'" and "BT \<notin> set m" and "\<not> startsWith (''csv'' @ [NL]) m"
  shows "findSub (fenceOpen ''csv'') (fencedBlock ''json'' b' @ m @ fenceOpen ''csv'' @ r)
         = Some (fencedBlock ''json'' b' @ m, r)"
proof -
  let ?P = "BT # BT # BT # CHR ''c'' # ''sv'' @ [NL]"
  have c: "BT \<notin> set (CHR ''c'' # ''sv'' @ [NL])"
    by (simp add: BT_def NL_def)
  have s1: "findSub ?P (BT # BT # BT # m @ ?P @ r) = Some (BT # BT # BT # m, r)"
    using assms(2,3) c by (intro findSub_after_fence) simp_all
  have s2: "findSub ?P (NL # BT # BT # BT # m @ ?P @ r) = Some (NL # BT # BT # BT # m, r)"
    using s1 by (simp add: BT_def NL_def)
  have s3: "findSub ?P (b' @ NL # BT # BT # BT # m @ ?P @ r) = Some (b' @ NL # BT # BT # BT # m, r)"
    using assms(1) s2 by (simp add: findSub_skip_free del: findSub.simps)
  have s4: "findSub ?P (BT # BT # BT # ''json'' @ NL # b' @ NL # BT # BT # BT # m @ ?P @ r)
            = Some (BT # BT # BT # ''json'' @ NL # b' @ NL # BT # BT # BT # m, r)"
    using s3 by (simp add: BT_def NL_def)
  show ?thesis
    using s4 by (simp add: fencedBlock_def fenceOpen_def fenceClose_def)
qed


lemma regexMatch_json_after_csv:
  assumes "BT \<notin> set p" and "BT \<notin> set b'" and "BT \<notin> set m" and "BT \<notin> set b"
    and "\<not> startsWith (''json'' @ [NL]) m"
  shows "regexMatch ''json'' (p @ fencedBlock ''csv'' b' @ m @ fencedBlock ''json'' b @ y)
         = Some (p @ fencedBlock ''csv'' b' @ m, b, y)"
proof -
  have o: "fenceOpen ''json'' = BT # [BT, BT] @ ''json'' @ [NL]"
    by (simp add: fenceOpen_def)
  have "findSub (fenceOpen ''json'') (fencedBlock ''csv'' b' @ m @ fenceOpen ''json'' @ b @ fenceClose @ y)
        = Some (fencedBlock ''csv'' b' @ m, b @ fenceClose @ y)"
    using assms(2,3,5) by (rule findSub_json_after_csv)
  then have "findSub (fenceOpen ''json'') (p @ fencedBlock ''csv'' b' @ m @ fencedBlock ''json'' b @ y)
        = Some (p @ fencedBlock ''csv'' b' @ m, b @ fenceClose @ y)"
    unfolding o using assms(1) by (simp add: findSub_skip_free fencedBlock_def [of "''json''"] o del: findSub.simps)
  then show ?thesis
    using assms(4) by (simp add: regexMatch_def findSub_close_first)
qed

lemma regexMatch_csv_after_json:
  assumes "BT \<notin> set p" and "BT \<notin> set b'" and "BT \<notin> set m" and "BT \<notin> set b"
    and "\<not> startsWith (''csv'' @ [NL]) m"
  shows "regexMatch ''csv'' (p @ fencedBlock ''json'' b' @ m @ fencedBlock ''csv'' b @ y)
         = Some (p @ fencedBlock ''json'' b' @ m, b, y)"
proof -
  have o: "fenceOpen ''csv'' = BT # [BT, BT] @ ''csv'' @ [NL]"
    by (simp add: fenceOpen_def)
  have "findSub (fenceOpen ''csv'') (fencedBlock ''json'' b' @ m @ fenceOpen ''csv'' @ b @ fenceClose @ y)
        = Some (fencedBlock ''json'' b' @ m, b @ fenceClose @ y)"
    using assms(2,3,5) by (rule findSub_csv_after_json)
  then have "findSub (fenceOpen ''csv'') (p @ fencedBlock ''json'' b' @ m @ fencedBlock ''csv'' b @ y)
        = Some (p @ fencedBlock ''json'' b' @ m, b @ fenceClose @ y)"
    unfolding o using assms(1) by (simp add: findSub_skip_free fencedBlock_def [of "''csv''"] o del: findSub.simps)
  then show ?thesis
    using assms(4) by (simp add: regexMatch_def findSub_close_first)
qed

lemma regexRemove_match: "regexMatch tag t = Some (x, b, y) \<Longrightarrow> regexRemove tag t = x @ y"
  by (simp add: regexRemove_def)

lemma extractPayloads_both:
  assumes c: "regexMatch ''csv'' t = Some (x1, b1, y1)" and b1: "b1 \<noteq> []"
    and j: "regexMatch ''json'' t = Some (x2, b2, y2)" and b2: "b2 \<noteq> []"
    and pj: "jsonParse b2 = Some v"
  shows "extractPayloads jsonParse t = (Some (trim b1), trim (regexRemove ''json'' (trim (x1 @ y1))), Some v)"
  using b1 b2 pj by (simp add: extractPayloads_def c j regexRemove_match [OF c])

lemma startsWith_long: "length pat \<le> length z \<Longrightarrow> startsWith pat (z @ v) = startsWith pat z"
  by (induction pat z rule: startsWith.induct) simp_all

lemma findSub_tail:
  "findSub pat (u @ pat @ v) = Some (u, v) \<Longrightarrow> findSub pat (u @ pat @ v') = Some (u, v')"
proof (induction u)
  case Nil
  show ?case using findSub_here [of pat v'] by simp
next
  case (Cons c u)
  have n: "\<not> startsWith pat (c # u @ pat @ v)"
    using Cons.prems by (auto split: if_splits)
  then have f: "findSub pat (u @ pat @ v) = Some (u, v)"
    using Cons.prems by (auto split: option.splits)
  have "startsWith pat ((c # u @ pat) @ v') = startsWith pat (c # u @ pat)"
    by (rule startsWith_long) simp
  moreover have "startsWith pat ((c # u @ pat) @ v) = startsWith pat (c # u @ pat)"
    by (rule startsWith_long) simp
  ultimately have "\<not> startsWith pat (c # u @ pat @ v')"
    using n by simp
  with Cons.IH [OF f] show ?case
    by simp
qed

lemma regexMatch_tail:
  assumes "regexMatch tag (pre @ fencedBlock tag body @ rest) = Some (pre, body, rest)"
  shows "regexMatch tag (pre @ fencedBlock tag body @ rest') = Some (pre, body, rest')"
proof -
  let ?o = "fenceOpen tag"
  from assms obtain r where o: "findSub ?o (pre @ fencedBlock tag body @ rest) = Some (pre, r)"
    and c: "findSub fenceClose r = Some (body, rest)"
    by (auto simp add: regexMatch_def split: option.splits)
  have "pre @ fencedBlock tag body @ rest = pre @ ?o @ r"
    using o by (rule findSub_sound)
  then have r: "r = body @ fenceClose @ rest"
    by (simp add: fencedBlock_def)
  have "findSub ?o (pre @ ?o @ body @ fenceClose @ rest) = Some (pre, body @ fenceClose @ rest)"
    using o unfolding r by (simp add: fencedBlock_def)
  then have o': "findSub ?o (pre @ ?o @ body @ fenceClose @ rest') = Some (pre, body @ fenceClose @ rest')"
    by (rule findSub_tail)
  have c': "findSub fenceClose (body @ fenceClose @ rest') = Some (body, rest')"
    using c unfolding r by (rule findSub_tail)
  show ?thesis
    using o' c' by (simp add: regexMatch_def fencedBlock_def)
qed

lemma regexMatch_skip_free:
  "BT \<notin> set w \<Longrightarrow>
   regexMatch tag (w @ x) = (case regexMatch tag x of None \<Rightarrow> None | Some (a, b, c) \<Rightarrow> Some (w @ a, b, c))"
  unfolding regexMatch_def fenceOpen_def
  using findSub_skip_free [of BT w "[BT, BT] @ tag @ [NL]" x]
  by (simp split: option.splits del: findSub.simps)

lemma regexMatch_trimStart:
  assumes "regexMatch tag (pre @ t) = Some (pre, body, rest)"
  shows "regexMatch tag (trimStart pre @ t) = Some (trimStart pre, body, rest)"
proof -
  define ts where "ts = trimStart pre"
  obtain w where w: "pre = w @ ts" and s: "\<forall>c\<in>set w. isSpace c"
    unfolding ts_def using trimStart_decomp by blast
  have f: "BT \<notin> set w"
    using s BT_not_space by blast
  have "regexMatch tag (w @ (ts @ t)) = Some (w @ ts, body, rest)"
    using assms unfolding w by simp
  then have "regexMatch tag (ts @ t) = Some (ts, body, rest)"
    unfolding regexMatch_skip_free [OF f] by (auto split: option.splits)
  then show ?thesis
    unfolding ts_def .
qed

lemma regexMatch_trimmed:
  assumes "regexMatch tag (pre @ fencedBlock tag body @ rest) = Some (pre, body, rest)"
  shows "regexMatch tag (trim (pre @ fencedBlock tag body @ rest)) = Some (trimStart pre, body, trimEnd rest)"
proof -
  have "regexMatch tag (pre @ fencedBlock tag body @ trimEnd rest) = Some (pre, body, trimEnd rest)"
    using assms by (rule regexMatch_tail)
  then have "regexMatch tag (trimStart pre @ fencedBlock tag body @ trimEnd rest) = Some (trimStart pre, body, trimEnd rest)"
    by (rule regexMatch_trimStart)
  then show ?thesis
    by (simp only: trim_block)
qed

lemma findSub_factor: "findSub pat x = None \<Longrightarrow> findSub pat (trim x) = None"
proof (rule ccontr)
  assume n: "findSub pat x = None" and "findSub pat (trim x) \<noteq> None"
  then obtain a b where "findSub pat (trim x) = Some (a, b)"
    by auto
  then have t: "trim x = a @ pat @ b"
    by (rule findSub_sound)
  obtain l r where "x = l @ trim x @ r"
    using trim_decomp by blast
  then have "x = (l @ a) @ pat @ (b @ r)"
    using t by simp
  then have "findSub pat x \<noteq> None"
    using findSub_complete [of pat "l @ a" "b @ r"] by simp
  with n show False
    by simp
qed

text \<open>
  Texts without a backtick around the two blocks and inside them, with a text between
  the blocks that does not start with a tag and a line feed, are found by the patterns
  as they stand, in either order and with the csv block taken out.
\<close>

lemma backtick_free_matches:
  assumes "BT \<notin> set p" and "BT \<notin> set m" and "BT \<notin> set b1" and "BT \<notin> set b2"
    and "\<not> startsWith (''csv'' @ [NL]) m" and "\<not> startsWith (''json'' @ [NL]) m"
  shows "regexMatch ''csv'' (p @ fencedBlock ''csv'' b1 @ m @ fencedBlock ''json'' b2 @ s)
           = Some (p, b1, m @ fencedBlock ''json'' b2 @ s)"
    and "regexMatch ''json'' (p @ fencedBlock ''csv'' b1 @ m @ fencedBlock ''json'' b2 @ s)
           = Some (p @ fencedBlock ''csv'' b1 @ m, b2, s)"
    and "regexMatch ''json'' (p @ fencedBlock ''json'' b2 @ m @ fencedBlock ''csv'' b1 @ s)
           = Some (p, b2, m @ fencedBlock ''csv'' b1 @ s)"
    and "regexMatch ''csv'' (p @ fencedBlock ''json'' b2 @ m @ fencedBlock ''csv'' b1 @ s)
           = Some (p @ fencedBlock ''json'' b2 @ m, b1, s)"
    and "regexMatch ''json'' (p @ m @ fencedBlock ''json'' b2 @ s) = Some (p @ m, b2, s)"
proof -
  show "regexMatch ''csv'' (p @ fencedBlock ''csv'' b1 @ m @ fencedBlock ''json'' b2 @ s)
           = Some (p, b1, m @ fencedBlock ''json'' b2 @ s)"
    using assms(1,3) by (rule regexMatch_first)
  show "regexMatch ''json'' (p @ fencedBlock ''csv'' b1 @ m @ fencedBlock ''json'' b2 @ s)
           = Some (p @ fencedBlock ''csv'' b1 @ m, b2, s)"
    using assms(1,3,2,4,6) by (rule regexMatch_json_after_csv)
  show "regexMatch ''json'' (p @ fencedBlock ''json'' b2 @ m @ fencedBlock ''csv'' b1 @ s)
           = Some (p, b2, m @ fencedBlock ''csv'' b1 @ s)"
    using assms(1,4) by (rule regexMatch_first)
  show "regexMatch ''csv'' (p @ fencedBlock ''json'' b2 @ m @ fencedBlock ''csv'' b1 @ s)
           = Some (p @ fencedBlock ''json'' b2 @ m, b1, s)"
    using assms(1,4,2,3,5) by (rule regexMatch_csv_after_json)
  have "BT \<notin> set (p @ m)"
    using assms(1,2) by simp
  then have "regexMatch ''json'' ((p @ m) @ fencedBlock ''json'' b2 @ s) = Some (p @ m, b2, s)"
    using assms(4) by (rule regexMatch_first)
  then show "regexMatch ''json'' (p @ m @ fencedBlock ''json'' b2 @ s) = Some (p @ m, b2, s)"
    by simp
qed

text \<open>
  Claim C9 says that for every response text with one csv block and one json block that
  do not overlap, extraction gives the same residual text and artifacts whichever block
  comes first, and that the residual text holds no fence marker. Where the text before
  the first block ends with \<open>```j\<close> and the text between the blocks starts with \<open>son\<close>
  and a line feed, removing the csv block joins the two into a new json fence, which
  the json pattern then finds before the json block; the residual texts of the two
  orders differ and keep fence markers, though each of the two texts holds each opening
  fence once. Where the csv block has an empty body, the guard \<^verbatim>\<open>csvMatch[1]\<close> of
  line 301 skips it and the block stays in the text; a json block with an empty body
  stays in the same way (line 312), and so does one whose body does not parse. Where
  the text after the blocks holds an opening fence of its own, the residual text holds
  it too.
\<close>

theorem C9_seam_and_empty_body_counterexample:
  "extractPayloads sampleParser seamCsvFirst
     = (Some (''a'' @ [NL] @ ''1''), ''json'' @ [NL] @ ''{}'' @ [NL] @ ''```'', Some (JObject []))
   \<and> extractPayloads sampleParser seamJsonFirst
     = (Some (''a'' @ [NL] @ ''1''), ''```json'' @ [NL] @ ''foo'', Some (JObject []))
   \<and> countSub (fenceOpen ''csv'') seamCsvFirst = 1 \<and> countSub (fenceOpen ''json'') seamCsvFirst = 1
   \<and> countSub (fenceOpen ''csv'') seamJsonFirst = 1 \<and> countSub (fenceOpen ''json'') seamJsonFirst = 1
   \<and> regexMatch ''csv'' seamCsvFirst
       = Some (''```j'', ''a'' @ [NL] @ ''1'', ''son'' @ [NL] @ ''foo'' @ [NL] @ fencedBlock ''json'' ''{}'')
   \<and> regexMatch ''json'' seamCsvFirst
       = Some (''```j'' @ fencedBlock ''csv'' (''a'' @ [NL] @ ''1'') @ ''son'' @ [NL] @ ''foo'' @ [NL], ''{}'', [])
   \<and> regexMatch ''json'' seamJsonFirst
       = Some (''```j'', ''{}'', ''son'' @ [NL] @ ''foo'' @ [NL] @ fencedBlock ''csv'' (''a'' @ [NL] @ ''1''))
   \<and> regexMatch ''csv'' seamJsonFirst
       = Some (''```j'' @ fencedBlock ''json'' ''{}'' @ ''son'' @ [NL] @ ''foo'' @ [NL], ''a'' @ [NL] @ ''1'', [])
   \<and> regexMatch ''json'' (''```j'' @ (''son'' @ [NL] @ ''foo'' @ [NL]) @ fencedBlock ''json'' ''{}'')
       = Some ([], ''foo'', ''json'' @ [NL] @ ''{}'' @ [NL] @ ''```'')
   \<and> extractPayloads sampleParser emptyCsvBody = (None, fencedBlock ''csv'' [], Some (JObject []))
   \<and> extractPayloads sampleParser emptyJsonBody = (Some (''a'' @ [NL] @ ''1''), fencedBlock ''json'' [], None)
   \<and> extractPayloads sampleParser brokenJsonAfterCsv
       = (Some (''a'' @ [NL] @ ''1''), fencedBlock ''json'' ''{bad'', None)
   \<and> extractPayloads sampleParser strayFence
       = (Some (''a'' @ [NL] @ ''1''), ''```json'' @ [NL] @ ''x'', Some (JObject []))"
  by code_simp

lemma processResponse_cong:
  "extractPayloads jsonParse t1 = extractPayloads jsonParse t2 \<Longrightarrow>
   processResponse num jsonParse t1 st = processResponse num jsonParse t2 st"
  by (simp add: processResponse_def)

text \<open>
  Claim C9, amended. Let a response text be made of a csv block and a json block with
  texts before, between and after them, and let each pattern find its block there, in
  the text with the csv block first and in the text with the json block first. Let
  both bodies be non-empty, let the json body parse, and let the json pattern still
  find the json block once the csv block is taken out from between the texts around
  it. Then extraction gives the same result whichever block comes first: the trimmed
  csv body as the new dataset, the parsed chart, and as residual text the three
  surrounding texts joined and trimmed; the handler ends in the same state. The
  residual text holds a fence marker, as any other text, only where the joined
  surrounding texts hold it. Backticks that open no fence, such as those of inline code
  spans, do not matter.
\<close>

theorem C9_block_order_independent:
  assumes csvFirst: "regexMatch ''csv'' (p @ fencedBlock ''csv'' b1 @ m @ fencedBlock ''json'' b2 @ s)
                       = Some (p, b1, m @ fencedBlock ''json'' b2 @ s)"
                    "regexMatch ''json'' (p @ fencedBlock ''csv'' b1 @ m @ fencedBlock ''json'' b2 @ s)
                       = Some (p @ fencedBlock ''csv'' b1 @ m, b2, s)"
    and jsonFirst: "regexMatch ''json'' (p @ fencedBlock ''json'' b2 @ m @ fencedBlock ''csv'' b1 @ s)
                       = Some (p, b2, m @ fencedBlock ''csv'' b1 @ s)"
                   "regexMatch ''csv'' (p @ fencedBlock ''json'' b2 @ m @ fencedBlock ''csv'' b1 @ s)
                       = Some (p @ fencedBlock ''json'' b2 @ m, b1, s)"
    and seam: "regexMatch ''json'' (p @ m @ fencedBlock ''json'' b2 @ s) = Some (p @ m, b2, s)"
    and nonempty: "b1 \<noteq> []" "b2 \<noteq> []"
    and parse: "jsonParse b2 = Some v"
  shows "extractPayloads jsonParse (p @ fencedBlock ''csv'' b1 @ m @ fencedBlock ''json'' b2 @ s)
           = (Some (trim b1), trim (p @ m @ s), Some v)
       \<and> extractPayloads jsonParse (p @ fencedBlock ''json'' b2 @ m @ fencedBlock ''csv'' b1 @ s)
           = (Some (trim b1), trim (p @ m @ s), Some v)
       \<and> processResponse num jsonParse (p @ fencedBlock ''csv'' b1 @ m @ fencedBlock ''json'' b2 @ s) st
           = processResponse num jsonParse (p @ fencedBlock ''json'' b2 @ m @ fencedBlock ''csv'' b1 @ s) st
       \<and> (findSub pat (p @ m @ s) = None \<longrightarrow> findSub pat (trim (p @ m @ s)) = None)"
proof -
  let ?C = "fencedBlock ''csv'' b1" and ?J = "fencedBlock ''json'' b2"
  \<comment> \<open>the csv block first\<close>
  have "regexMatch ''json'' ((p @ m) @ ?J @ s) = Some (p @ m, b2, s)"
    using seam by simp
  then have "regexMatch ''json'' (trim ((p @ m) @ ?J @ s)) = Some (trimStart (p @ m), b2, trimEnd s)"
    by (rule regexMatch_trimmed)
  then have "trim (regexRemove ''json'' (trim (p @ m @ ?J @ s))) = trim (p @ m @ s)"
    using trim_join [of "p @ m" s] by (simp add: regexRemove_match)
  with extractPayloads_both [where jsonParse = jsonParse, OF csvFirst(1) nonempty(1) csvFirst(2) nonempty(2) parse]
  have e1: "extractPayloads jsonParse (p @ ?C @ m @ ?J @ s) = (Some (trim b1), trim (p @ m @ s), Some v)"
    by simp
  \<comment> \<open>the json block first\<close>
  have "regexMatch ''json'' (p @ ?J @ m @ s) = Some (p, b2, m @ s)"
    using jsonFirst(1) by (rule regexMatch_tail)
  then have "regexMatch ''json'' (trim (p @ ?J @ m @ s)) = Some (trimStart p, b2, trimEnd (m @ s))"
    by (rule regexMatch_trimmed)
  then have "trim (regexRemove ''json'' (trim ((p @ ?J @ m) @ s))) = trim (p @ m @ s)"
    using trim_join [of p "m @ s"] by (simp add: regexRemove_match)
  with extractPayloads_both [where jsonParse = jsonParse, OF jsonFirst(2) nonempty(1) jsonFirst(1) nonempty(2) parse]
  have e2: "extractPayloads jsonParse (p @ ?J @ m @ ?C @ s) = (Some (trim b1), trim (p @ m @ s), Some v)"
    by simp
  from e1 e2 have "processResponse num jsonParse (p @ ?C @ m @ ?J @ s) st
      = processResponse num jsonParse (p @ ?J @ m @ ?C @ s) st"
    by (intro processResponse_cong) simp
  with e1 e2 findSub_factor [of pat "p @ m @ s"] show ?thesis
    by simp
qed

lemma codeSpan_matches:
  "regexMatch ''csv'' (codeSpanBefore @ fencedBlock ''csv'' sampleCsvBody @ [NL] @ fencedBlock ''json'' ''{}'' @ codeSpanAfter)
     = Some (codeSpanBefore, sampleCsvBody, [NL] @ fencedBlock ''json'' ''{}'' @ codeSpanAfter)"
  "regexMatch ''json'' (codeSpanBefore @ fencedBlock ''csv'' sampleCsvBody @ [NL] @ fencedBlock ''json'' ''{}'' @ codeSpanAfter)
     = Some (codeSpanBefore @ fencedBlock ''csv'' sampleCsvBody @ [NL], ''{}'', codeSpanAfter)"
  "regexMatch ''json'' (codeSpanBefore @ fencedBlock ''json'' ''{}'' @ [NL] @ fencedBlock ''csv'' sampleCsvBody @ codeSpanAfter)
     = Some (codeSpanBefore, ''{}'', [NL] @ fencedBlock ''csv'' sampleCsvBody @ codeSpanAfter)"
  "regexMatch ''csv'' (codeSpanBefore @ fencedBlock ''json'' ''{}'' @ [NL] @ fencedBlock ''csv'' sampleCsvBody @ codeSpanAfter)
     = Some (codeSpanBefore @ fencedBlock ''json'' ''{}'' @ [NL], sampleCsvBody, codeSpanAfter)"
  "regexMatch ''json'' (codeSpanBefore @ [NL] @ fencedBlock ''json'' ''{}'' @ codeSpanAfter)
     = Some (codeSpanBefore @ [NL], ''{}'', codeSpanAfter)"
  "sampleCsvBody \<noteq> []"
  "''{}'' \<noteq> []"
  "sampleParser ''{}'' = Some (JObject [])"
  by code_simp+

lemma codeSpan_trims:
  "trim sampleCsvBody = sampleCsvBody"
  "trim (codeSpanBefore @ [NL] @ codeSpanAfter) = codeSpanBefore @ [NL] @ codeSpanAfter"
  "findSub ''```'' (codeSpanBefore @ [NL] @ codeSpanAfter) = None"
  by code_simp+

theorem C9_block_order_independent_witness:
  "regexMatch ''csv'' (codeSpanBefore @ fencedBlock ''csv'' sampleCsvBody @ [NL] @ fencedBlock ''json'' ''{}'' @ codeSpanAfter)
     = Some (codeSpanBefore, sampleCsvBody, [NL] @ fencedBlock ''json'' ''{}'' @ codeSpanAfter)
   \<and> regexMatch ''json'' (codeSpanBefore @ fencedBlock ''csv'' sampleCsvBody @ [NL] @ fencedBlock ''json'' ''{}'' @ codeSpanAfter)
     = Some (codeSpanBefore @ fencedBlock ''csv'' sampleCsvBody @ [NL], ''{}'', codeSpanAfter)
   \<and> regexMatch ''json'' (codeSpanBefore @ fencedBlock ''json'' ''{}'' @ [NL] @ fencedBlock ''csv'' sampleCsvBody @ codeSpanAfter)
     = Some (codeSpanBefore, ''{}'', [NL] @ fencedBlock ''csv'' sampleCsvBody @ codeSpanAfter)
   \<and> regexMatch ''csv'' (codeSpanBefore @ fencedBlock ''json'' ''{}'' @ [NL] @ fencedBlock ''csv'' sampleCsvBody @ codeSpanAfter)
     = Some (codeSpanBefore @ fencedBlock ''json'' ''{}'' @ [NL], sampleCsvBody, codeSpanAfter)
   \<and> regexMatch ''json'' (codeSpanBefore @ [NL] @ fencedBlock ''json'' ''{}'' @ codeSpanAfter)
     = Some (codeSpanBefore @ [NL], ''{}'', codeSpanAfter)
   \<and> sampleCsvBody \<noteq> [] \<and> ''{}'' \<noteq> [] \<and> sampleParser ''{}'' = Some (JObject [])
   \<and> extractPayloads sampleParser
        (codeSpanBefore @ fencedBlock ''csv'' sampleCsvBody @ [NL] @ fencedBlock ''json'' ''{}'' @ codeSpanAfter)
       = (Some sampleCsvBody, codeSpanBefore @ [NL] @ codeSpanAfter, Some (JObject []))
   \<and> extractPayloads sampleParser
        (codeSpanBefore @ fencedBlock ''json'' ''{}'' @ [NL] @ fencedBlock ''csv'' sampleCsvBody @ codeSpanAfter)
       = (Some sampleCsvBody, codeSpanBefore @ [NL] @ codeSpanAfter, Some (JObject []))
   \<and> findSub ''```'' (codeSpanBefore @ [NL] @ codeSpanAfter) = None
   \<and> BT \<in> set (codeSpanBefore @ [NL] @ codeSpanAfter)"
proof -
  note r = C9_block_order_independent [where jsonParse = sampleParser and num = exactOps and st = idleState
      and pat = "''```''", OF codeSpan_matches, unfolded codeSpan_trims]
  have "BT \<in> set (codeSpanBefore @ [NL] @ codeSpanAfter)"
    by (simp add: codeSpanBefore_def BT_def)
  with r codeSpan_matches codeSpan_trims(3) show ?thesis
    by (simp only: simp_thms)
qed

section \<open>Dataset replacement\<close>

lemma analyzeColumns_header_only: "analyzeColumns num ''onlyheader'' = []"
proof -
  have "csvLines ''onlyheader'' = [''onlyheader'']"
    by code_simp
  then show ?thesis
    by (simp add: analyzeColumns_def)
qed

lemma headerOnly_extract: "extractPayloads sampleParser headerOnlyResponse = (Some ''onlyheader'', ''Done.'', None)"
  by code_simp

lemma applyDataset_unconditional:
  assumes "uploadedFile st = Some f"
  shows "\<exists>st'. applyDataset num d st = Inr st' \<and> csvData st' = Some d
           \<and> map_option columns (uploadedFile st') = Some (analyzeColumns num d)"
  using assms by (simp add: applyDataset_def addMessage_def)

text \<open>
  Claim C1: when the csv block of a response fails to profile, the replacement is
  rejected, the stored dataset and column profiles stay unchanged, and the rest of the
  response text is still returned. The handler has no such check: with a dataset of two
  columns loaded and a response whose csv block holds the single line \<open>onlyheader\<close>,
  which profiles to no column at all, it stores that line as the dataset and the empty
  list as the column profiles; the rest of the text, \<open>Done.\<close>, is returned.
\<close>

theorem C1_replacement_overwrites_dataset:
  "analyzeColumns exactOps ''onlyheader'' = []
   \<and> handleSend exactOps sampleParser (\<lambda>q cols d. Some headerOnlyResponse) ''q'' loadedState
     = Inr \<lparr>messages = [\<lparr>sender = user, msgText = ''q'', chartData = None\<rparr>,
                        \<lparr>sender = system, msgText = ''Dataset has been updated. Column analysis is refreshed.'',
                          chartData = None\<rparr>,
                        \<lparr>sender = ai, msgText = ''Done.'', chartData = None\<rparr>],
            isLoading = False,
            uploadedFile = Some \<lparr>fileName = ''data.csv'', columns = []\<rparr>,
            csvData = Some ''onlyheader''\<rparr>"
  by (simp add: handleSend_def processResponse_def applyDataset_def headerOnly_extract trim_q finishSend_def
      addMessage_def replyMessage_def loadedState_def analyzeColumns_header_only)

end
